theory Spec2Isabelle
  imports Main
begin

section \<open>JavaScript values and arrays\<close>

text \<open>
  The entries of \<open>lineSums\<close> are JavaScript numbers. Reading an index the array does not
  hold gives \<open>undefined\<close>, and \<open>undefined + n\<close> is \<open>NaN\<close>. Grid sizes and sums are small
  integers, which JavaScript numbers represent exactly.
\<close>

datatype jsval = Num int | NaN | Undefined

text \<open>
  An array object: the value stored under each integer property name (\<open>Undefined\<close>
  where there is none) and the \<open>length\<close> property.
\<close>

record jsarray =
  elems :: "int \<Rightarrow> jsval"
  alength :: nat

definition js_empty :: jsarray where
  "js_empty = \<lparr>elems = (\<lambda>_. Undefined), alength = 0\<rparr>"

definition js_push :: "jsarray \<Rightarrow> jsval \<Rightarrow> jsarray" where
  "js_push a v = \<lparr>elems = (elems a)(int (alength a) := v), alength = Suc (alength a)\<rparr>"

definition js_get :: "jsarray \<Rightarrow> int \<Rightarrow> jsval" where
  "js_get a i = elems a i"

text \<open>\<open>a[i] = v\<close>: a write at an array index (an integer from 0 to \<open>2\<^sup>3\<^sup>2 - 2\<close>) at or
  beyond the length extends the array; any other integer, a negative one among them, is
  stored as an ordinary property and leaves the length alone.\<close>

definition js_set :: "jsarray \<Rightarrow> int \<Rightarrow> jsval \<Rightarrow> jsarray" where
  "js_set a i v =
     \<lparr>elems = (elems a)(i := v),
      alength = (if int (alength a) \<le> i \<and> i < 2 ^ 32 - 1 then nat (i + 1) else alength a)\<rparr>"

text \<open>\<open>v + n\<close> for a number \<open>n\<close>.\<close>

fun js_plus :: "jsval \<Rightarrow> int \<Rightarrow> jsval" where
  "js_plus (Num a) n = Num (a + n)"
| "js_plus NaN n = NaN"
| "js_plus Undefined n = NaN"

text \<open>\<open>Math.abs(v) === n\<close> for a number \<open>n\<close>.\<close>

fun js_abs_is :: "jsval \<Rightarrow> int \<Rightarrow> bool" where
  "js_abs_is (Num a) n = (\<bar>a\<bar> = n)"
| "js_abs_is NaN n = False"
| "js_abs_is Undefined n = False"

section \<open>The page and the game state\<close>

text \<open>
  A board square is a \<open>div\<close> with the attributes \<open>data-x\<close> and \<open>data-y\<close>, a class name and
  its child nodes. A child is the clone of a dragged piece image; it is represented by
  the id of the image it was cloned from.
\<close>

record square =
  className :: string
  data_x :: int
  data_y :: int
  childNodes :: "string list"

text \<open>
  The target of a drop event is a square of \<open>squares\<close> (by its position in the collection)
  or the piece image inside such a square.
\<close>

datatype target = Div nat | Img nat

record event =
  dataTransfer :: string
  target :: target

datatype element = SquareEl square | ImgEl

datatype error = TypeError

text \<open>
  The global variables of the script, with the parts of the page they refer to:
  \<open>container\<close> is the id of the container element once it has been found, \<open>controls\<close>
  holds the ids of the piece images that \<open>createGameControls\<close> puts on the page,
  \<open>squares\<close> is the collection of board squares in document order, and \<open>messageNode\<close>
  is the text the message node displays.
\<close>

record state =
  initialized :: bool
  GRID_SIZE :: int
  NUMBER_OF_SQUARES :: int
  IMAGE_DIR :: string
  container :: "string option"
  controls :: "string list"
  squares :: "square list"
  lineSums :: jsarray
  message :: string
  messageNode :: string
  gameOver :: bool
  victoryFlag :: bool
  currentPlayer :: int
  turnCount :: int

definition PLAYER_ONE :: int where "PLAYER_ONE = 1"
definition PLAYER_TWO :: int where "PLAYER_TWO = - 1"
definition PLAYER_ONE_NAME :: string where "PLAYER_ONE_NAME = ''Player 1''"
definition PLAYER_TWO_NAME :: string where "PLAYER_TWO_NAME = ''Player 2''"

definition getPlayerName :: "int \<Rightarrow> string" where
  "getPlayerName player = (if player = PLAYER_ONE then PLAYER_ONE_NAME else PLAYER_TWO_NAME)"

section \<open>Operations\<close>

subsection \<open>Looking at the target of an event\<close>

text \<open>
  The element an event's target refers to. The drop handler is registered on the board
  squares only, so an event whose target is no square of the board (or no image inside
  one) never reaches it: \<open>resolve\<close> gives \<open>None\<close> there.
\<close>

fun resolve :: "state \<Rightarrow> target \<Rightarrow> element option" where
  "resolve s (Div k) =
     (if k < length (squares s) then Some (SquareEl (squares s ! k)) else None)"
| "resolve s (Img k) =
     (if k < length (squares s) \<and> childNodes (squares s ! k) \<noteq> [] then Some ImgEl else None)"

fun tagName :: "element \<Rightarrow> string" where
  "tagName (SquareEl q) = ''DIV''"
| "tagName ImgEl = ''IMG''"

fun nodes :: "element \<Rightarrow> string list" where
  "nodes (SquareEl q) = childNodes q"
| "nodes ImgEl = []"

definition isOccupied :: "element \<Rightarrow> bool" where
  "isOccupied object =
     (if tagName object = ''IMG'' \<or> length (nodes object) > 0 then True else False)"

subsection \<open>Resetting\<close>

text \<open>The inner loop of \<open>resetGame\<close>: while the square has a last child, remove it and
  set the class name.\<close>

function clearSquare :: "square \<Rightarrow> square" where
  "clearSquare q =
     (if childNodes q \<noteq> []
      then clearSquare (q\<lparr>childNodes := butlast (childNodes q), className := ''square''\<rparr>)
      else q)"
  by pat_completeness auto
termination
  by (relation "measure (\<lambda>q. length (childNodes q))") auto

declare clearSquare.simps [simp del]

definition resetGame :: "state \<Rightarrow> state" where
  "resetGame s =
     (let s1 = s\<lparr>gameOver := False, victoryFlag := False, turnCount := 0,
                 currentPlayer := PLAYER_ONE,
                 message := getPlayerName PLAYER_ONE @ '' starts the game''\<rparr>;
          s2 = s1\<lparr>messageNode := message s1\<rparr>;
          s3 = s2\<lparr>lineSums :=
                 fold (\<lambda>i a. js_push a (Num 0)) [0 ..< nat (GRID_SIZE s2 * 2 + 2)] js_empty\<rparr>
      in s3\<lparr>squares := map clearSquare (squares s3)\<rparr>)"

subsection \<open>Taking a turn\<close>

definition updateVictoryConditions :: "int \<Rightarrow> int \<Rightarrow> int \<Rightarrow> state \<Rightarrow> state" where
  "updateVictoryConditions x y player s =
     (let s1 = s\<lparr>lineSums := js_set (lineSums s) x (js_plus (js_get (lineSums s) x) player)\<rparr>;
          s2 = s1\<lparr>lineSums := js_set (lineSums s1) (GRID_SIZE s1 + y)
                                  (js_plus (js_get (lineSums s1) (GRID_SIZE s1 + y)) player)\<rparr>;
          s3 = s2\<lparr>victoryFlag :=
                   (js_abs_is (js_get (lineSums s2) x) (GRID_SIZE s2) \<or>
                    js_abs_is (js_get (lineSums s2) (GRID_SIZE s2 + y)) (GRID_SIZE s2))\<rparr>;
          s4 = (if \<not> victoryFlag s3 \<and> x = y
                then (let t = s3\<lparr>lineSums := js_set (lineSums s3) (GRID_SIZE s3 * 2)
                                   (js_plus (js_get (lineSums s3) (GRID_SIZE s3 * 2)) player)\<rparr>
                      in t\<lparr>victoryFlag :=
                             js_abs_is (js_get (lineSums t) (GRID_SIZE t * 2)) (GRID_SIZE t)\<rparr>)
                else s3)
      in (if \<not> victoryFlag s4 \<and> \<bar>x - (GRID_SIZE s4 - 1)\<bar> = y
          then (let t = s4\<lparr>lineSums := js_set (lineSums s4) (GRID_SIZE s4 * 2 + 1)
                             (js_plus (js_get (lineSums s4) (GRID_SIZE s4 * 2 + 1)) player)\<rparr>
                in t\<lparr>victoryFlag :=
                       js_abs_is (js_get (lineSums t) (GRID_SIZE t * 2 + 1)) (GRID_SIZE t)\<rparr>)
          else s4))"

text \<open>
  \<open>document.getElementById\<close> on the dragged text. The two piece images of the control
  panel are found, as on the page. Every other text is taken to name no element: the
  lookup gives \<open>null\<close>, on which \<open>cloneNode\<close> raises a \<open>TypeError\<close> before anything has
  been changed. That is what the page does for a text that is no id; it is not what the
  page does for the id of another element. The container's own id is such a text: its
  clone is put into the square, the turn is taken as a move of Player 2, and the copies
  of the squares inside the clone join the live collection \<open>squares\<close>. Drops of such
  texts are outside the model. Model and page agree on the drops of the two pieces
  (\<open>piece_drop\<close> below), and the properties of whole sessions that need the agreement
  are stated for those.
\<close>

definition getElementById :: "state \<Rightarrow> string \<Rightarrow> string option" where
  "getElementById s i = (if i \<in> set (controls s) then Some i else None)"

text \<open>
  \<open>drop\<close> calls \<open>takeTurn\<close> only when \<open>isOccupied\<close> is false for the target, which is then
  an empty square; for any other target the model leaves the state as it is.
\<close>

definition takeTurn :: "event \<Rightarrow> state \<Rightarrow> error + state" where
  "takeTurn ev s =
     (case target ev of
        Div k \<Rightarrow>
          (if k < length (squares s) then
             (let q = squares s ! k;
                  x = data_x q;
                  y = data_y q;
                  piece = (if dataTransfer ev = ''player-1'' then PLAYER_ONE else PLAYER_TWO)
              in case getElementById s (dataTransfer ev) of
                   None \<Rightarrow> Inl TypeError
                 | Some newNode \<Rightarrow>
                     Inr (updateVictoryConditions x y piece
                            (s\<lparr>squares := (squares s)
                                 [k := q\<lparr>childNodes := childNodes q @ [newNode],
                                         className := className q @ '' '' @ dataTransfer ev\<rparr>]\<rparr>)))
           else Inr s)
      | Img k \<Rightarrow> Inr s)"

definition endTurn :: "state \<Rightarrow> state" where
  "endTurn s =
     (let s1 = s\<lparr>turnCount := turnCount s + 1\<rparr>
      in if victoryFlag s1 then
           s1\<lparr>gameOver := True, message := getPlayerName (currentPlayer s1) @ '' wins!''\<rparr>
         else if turnCount s1 \<ge> NUMBER_OF_SQUARES s1 then
           s1\<lparr>gameOver := True, message := ''Tie game... you both lose!''\<rparr>
         else
           (let s2 = s1\<lparr>currentPlayer :=
                          (if currentPlayer s1 = PLAYER_ONE then PLAYER_TWO else PLAYER_ONE)\<rparr>
            in s2\<lparr>message := getPlayerName (currentPlayer s2) @ '''s turn''\<rparr>))"

text \<open>
  The drop handler \<open>drop\<close> (named \<open>drop_ev\<close> here, \<open>drop\<close> being a function on lists).
  \<open>Inl TypeError\<close> is the exception leaving the handler; the message is displayed only
  when the handler runs to its end.
\<close>

definition drop_ev :: "event \<Rightarrow> state \<Rightarrow> error + state" where
  "drop_ev e s =
     (case resolve s (target e) of
        None \<Rightarrow> Inr s
      | Some object \<Rightarrow>
          (let actualPlayer = (if dataTransfer e = ''player-1'' then PLAYER_ONE else PLAYER_TWO);
               legalTurn = (\<not> gameOver s \<and> actualPlayer = currentPlayer s \<and> \<not> isOccupied object)
           in case (if legalTurn then
                      (case takeTurn e s of Inl err \<Rightarrow> Inl err | Inr s1 \<Rightarrow> Inr (endTurn s1))
                    else
                      Inr (if gameOver s then s\<lparr>message := ''The game is already over!''\<rparr>
                           else if actualPlayer \<noteq> currentPlayer s then
                             s\<lparr>message := ''HEY! LISTEN! It's '' @ getPlayerName (currentPlayer s)
                                            @ '''s turn!''\<rparr>
                           else if isOccupied object then
                             s\<lparr>message := ''That spot is already taken!''\<rparr>
                           else s))
              of Inl err \<Rightarrow> Inl err
               | Inr s2 \<Rightarrow> Inr (s2\<lparr>messageNode := message s2\<rparr>)))"

subsection \<open>Initialisation\<close>

definition getNewBoardSquare :: "int \<Rightarrow> int \<Rightarrow> square" where
  "getNewBoardSquare x y = \<lparr>className = ''square'', data_x = x, data_y = y, childNodes = []\<rparr>"

definition createGameBoard :: "state \<Rightarrow> state" where
  "createGameBoard s =
     (if \<not> initialized s then
        s\<lparr>squares :=
            concat (map (\<lambda>y. map (\<lambda>x. getNewBoardSquare (int x) (int y))
                                [0 ..< nat (GRID_SIZE s)])
                        [0 ..< nat (GRID_SIZE s)])\<rparr>
      else s)"

definition createMessageDisplay :: "state \<Rightarrow> state" where
  "createMessageDisplay s = (if \<not> initialized s then s\<lparr>messageNode := []\<rparr> else s)"

definition createGameControls :: "state \<Rightarrow> state" where
  "createGameControls s =
     (if \<not> initialized s then s\<lparr>controls := [''player-1'', ''player-2'']\<rparr> else s)"

text \<open>
  \<open>while (!container) container = document.getElementById(elementId)\<close>: the lookup gives
  the same answer \<open>found\<close> each time, so the loop returns at once when the element exists
  and never when it does not (the value \<open>None\<close>).
\<close>

partial_function (option) awaitContainer :: "string option \<Rightarrow> string option \<Rightarrow> string option" where
  "awaitContainer found c =
     (case c of None \<Rightarrow> awaitContainer found found | Some el \<Rightarrow> Some el)"

declare awaitContainer.simps [code]

text \<open>
  \<open>gridSize\<close> is the value of \<open>parseInt(gridSize, 10)\<close>, taken to be an integer; \<open>found\<close>
  is what the document holds under \<open>elementId\<close>.
\<close>

definition initTicTacToe :: "string option \<Rightarrow> int \<Rightarrow> string \<Rightarrow> state \<Rightarrow> state option" where
  "initTicTacToe found gridSize imageDirectory s =
     (if \<not> initialized s then
        (let s1 = s\<lparr>GRID_SIZE := gridSize\<rparr>;
             s2 = s1\<lparr>NUMBER_OF_SQUARES := GRID_SIZE s1 * GRID_SIZE s1\<rparr>;
             s3 = s2\<lparr>IMAGE_DIR := imageDirectory\<rparr>
         in case awaitContainer found (container s3) of
              None \<Rightarrow> None
            | Some el \<Rightarrow>
                Some ((resetGame (createGameControls (createMessageDisplay
                         (createGameBoard (s3\<lparr>container := Some el\<rparr>)))))
                      \<lparr>initialized := True\<rparr>))
      else Some s)"

subsection \<open>Sessions\<close>

text \<open>
  What a user can do to an initialised game: press the reset button or drop something
  on the board. An exception in the drop handler leaves the state as it was.
\<close>

datatype action = Reset | Drop event

fun step :: "action \<Rightarrow> state \<Rightarrow> state" where
  "step Reset s = resetGame s"
| "step (Drop e) s = (case drop_ev e s of Inl err \<Rightarrow> s | Inr s' \<Rightarrow> s')"

definition run :: "action list \<Rightarrow> state \<Rightarrow> state" where
  "run acts s = fold step acts s"

text \<open>The script as loaded: \<open>initialized\<close> is false and no other variable has a value
  yet (the values below are placeholders, all overwritten by \<open>initTicTacToe\<close>).\<close>

definition loaded :: state where
  "loaded = \<lparr>initialized = False, GRID_SIZE = 0, NUMBER_OF_SQUARES = 0, IMAGE_DIR = [],
             container = None, controls = [], squares = [], lineSums = js_empty,
             message = [], messageNode = [], gameOver = False, victoryFlag = False,
             currentPlayer = 0, turnCount = 0\<rparr>"


section \<open>Notions used to state the properties\<close>

subsection \<open>Occupancy and lines\<close>

text \<open>
  Who occupies a square: \<open>0\<close> for an empty square, otherwise the player whose piece was
  cloned into it (read the way \<open>takeTurn\<close> reads the dragged text).
\<close>

definition occupant :: "square \<Rightarrow> int" where
  "occupant q =
     (case childNodes q of
        [] \<Rightarrow> 0
      | c # cs \<Rightarrow> (if c = ''player-1'' then PLAYER_ONE else PLAYER_TWO))"

definition occupied_count :: "state \<Rightarrow> nat" where
  "occupied_count s = length (filter (\<lambda>q. isOccupied (SquareEl q)) (squares s))"

text \<open>
  The victory lines of an \<open>n \<times> n\<close> grid, the squares on each, and the index of each in
  \<open>lineSums\<close>: columns first, then rows, then the two diagonals.
\<close>

datatype line = Column int | Row int | MainDiagonal | AntiDiagonal

fun is_line :: "int \<Rightarrow> line \<Rightarrow> bool" where
  "is_line n (Column i) = (0 \<le> i \<and> i < n)"
| "is_line n (Row j) = (0 \<le> j \<and> j < n)"
| "is_line n MainDiagonal = True"
| "is_line n AntiDiagonal = True"

fun on_line :: "int \<Rightarrow> line \<Rightarrow> square \<Rightarrow> bool" where
  "on_line n (Column i) q = (data_x q = i)"
| "on_line n (Row j) q = (data_y q = j)"
| "on_line n MainDiagonal q = (data_x q = data_y q)"
| "on_line n AntiDiagonal q = (data_x q + data_y q = n - 1)"

fun slot :: "int \<Rightarrow> line \<Rightarrow> int" where
  "slot n (Column i) = i"
| "slot n (Row j) = n + j"
| "slot n MainDiagonal = 2 * n"
| "slot n AntiDiagonal = 2 * n + 1"

fun is_diagonal :: "line \<Rightarrow> bool" where
  "is_diagonal (Column i) = False"
| "is_diagonal (Row j) = False"
| "is_diagonal MainDiagonal = True"
| "is_diagonal AntiDiagonal = True"

text \<open>The sum the program keeps for a line, and the sum of the occupants actually on it.\<close>

definition line_sum :: "state \<Rightarrow> line \<Rightarrow> jsval" where
  "line_sum s l = js_get (lineSums s) (slot (GRID_SIZE s) l)"

definition line_total :: "state \<Rightarrow> line \<Rightarrow> int" where
  "line_total s l =
     sum_list (map (\<lambda>q. if on_line (GRID_SIZE s) l q then occupant q else 0) (squares s))"


text \<open>Some entry of the line-sum table has reached \<open>+N\<close> or \<open>-N\<close>.\<close>

definition hit :: "state \<Rightarrow> bool" where
  "hit s = (\<exists>i \<in> set [0 .. 2 * GRID_SIZE s + 1]. js_abs_is (js_get (lineSums s) i) (GRID_SIZE s))"

text \<open>
  The actions of a game between the two players: a reset, or a drop whose dragged text is
  the id of one of the two piece images (the texts \<open>drag\<close> sets when a piece is picked
  up).
\<close>

fun piece_drop :: "action \<Rightarrow> bool" where
  "piece_drop Reset = True"
| "piece_drop (Drop e) = (dataTransfer e = ''player-1'' \<or> dataTransfer e = ''player-2'')"

subsection \<open>The board\<close>

definition coords :: "square \<Rightarrow> int \<times> int" where
  "coords q = (data_x q, data_y q)"

text \<open>The coordinates of the squares in the order \<open>createGameBoard\<close> appends them.\<close>

definition board_coords :: "int \<Rightarrow> (int \<times> int) list" where
  "board_coords n =
     concat (map (\<lambda>y. map (\<lambda>x. (int x, int y)) [0 ..< nat n]) [0 ..< nat n])"

definition board :: "int \<Rightarrow> square list" where
  "board n =
     concat (map (\<lambda>y. map (\<lambda>x. getNewBoardSquare (int x) (int y)) [0 ..< nat n]) [0 ..< nat n])"

text \<open>The array \<open>resetGame\<close> builds by pushing \<open>k\<close> zeros.\<close>

definition zeros :: "nat \<Rightarrow> jsarray" where
  "zeros k = \<lparr>elems = (\<lambda>i. if 0 \<le> i \<and> i < int k then Num 0 else Undefined), alength = k\<rparr>"

text \<open>A start state as the specification describes it.\<close>

definition fresh :: "int \<Rightarrow> state \<Rightarrow> bool" where
  "fresh n s \<longleftrightarrow>
     turnCount s = 0 \<and> currentPlayer s = PLAYER_ONE \<and> \<not> gameOver s \<and>
     GRID_SIZE s = n \<and>
     length (squares s) = nat (n * n) \<and> map coords (squares s) = board_coords n \<and>
     (\<forall>q \<in> set (squares s). occupant q = 0 \<and> \<not> isOccupied (SquareEl q)) \<and>
     alength (lineSums s) = nat (2 * n + 2) \<and>
     (\<forall>i \<in> set [0 .. 2 * n + 1]. js_get (lineSums s) i = Num 0) \<and>
     message s = PLAYER_ONE_NAME @ '' starts the game'' \<and>
     message s = ''Player 1 starts the game'' \<and>
     messageNode s = message s"

subsection \<open>The parts of a drop\<close>

text \<open>
  Names for what \<open>drop\<close> computes on the way: the player an event stands for, whether the
  turn is legal, the message of a refused turn, the board after \<open>takeTurn\<close> has put the
  piece on square \<open>k\<close>, the displayed message, and the state after an accepted move.
\<close>

definition piece_of :: "event \<Rightarrow> int" where
  "piece_of e = (if dataTransfer e = ''player-1'' then PLAYER_ONE else PLAYER_TWO)"

definition legal :: "event \<Rightarrow> state \<Rightarrow> bool" where
  "legal e s =
     (case resolve s (target e) of
        None \<Rightarrow> False
      | Some object \<Rightarrow> \<not> gameOver s \<and> piece_of e = currentPlayer s \<and> \<not> isOccupied object)"

definition refusal :: "event \<Rightarrow> state \<Rightarrow> string" where
  "refusal e s =
     (if gameOver s then ''The game is already over!''
      else if piece_of e \<noteq> currentPlayer s then
        ''HEY! LISTEN! It's '' @ getPlayerName (currentPlayer s) @ '''s turn!''
      else ''That spot is already taken!'')"

definition placed :: "event \<Rightarrow> nat \<Rightarrow> state \<Rightarrow> state" where
  "placed e k s =
     s\<lparr>squares := (squares s)
         [k := (squares s ! k)\<lparr>childNodes := childNodes (squares s ! k) @ [dataTransfer e],
                                className := className (squares s ! k) @ '' '' @ dataTransfer e\<rparr>]\<rparr>"

definition shown :: "state \<Rightarrow> state" where
  "shown s = s\<lparr>messageNode := message s\<rparr>"

definition moved :: "event \<Rightarrow> nat \<Rightarrow> state \<Rightarrow> state" where
  "moved e k s =
     shown (endTurn (updateVictoryConditions (data_x (squares s ! k)) (data_y (squares s ! k))
                       (piece_of e) (placed e k s)))"

subsection \<open>Invariants\<close>

text \<open>
  What every state of a session satisfies, for any grid size: the configuration is the
  one given at initialisation, the squares carry the coordinates of the board in board
  order, and \<open>turnCount\<close> counts the occupied squares.
\<close>

definition wellformed :: "int \<Rightarrow> state \<Rightarrow> bool" where
  "wellformed n s \<longleftrightarrow>
     GRID_SIZE s = n \<and> NUMBER_OF_SQUARES s = n * n \<and>
     map coords (squares s) = board_coords n \<and>
     controls s = [''player-1'', ''player-2''] \<and>
     turnCount s = int (occupied_count s)"

text \<open>
  A line is tracked when its sum is a number and equals the total of its occupants, or,
  for a diagonal of a finished game, misses the last piece only.
\<close>

definition tracked :: "state \<Rightarrow> line \<Rightarrow> bool" where
  "tracked s l =
     (case line_sum s l of
        Num v \<Rightarrow> v = line_total s l \<or>
                 (is_diagonal l \<and> gameOver s \<and> \<bar>v\<bar> < GRID_SIZE s \<and> \<bar>line_total s l - v\<bar> = 1)
      | NaN \<Rightarrow> False
      | Undefined \<Rightarrow> False)"

definition session_inv :: "int \<Rightarrow> state \<Rightarrow> bool" where
  "session_inv n s \<longleftrightarrow>
     1 \<le> n \<and> wellformed n s \<and> (\<forall>l. is_line n l \<longrightarrow> tracked s l) \<and>
     (gameOver s \<longleftrightarrow> hit s \<or> turnCount s = n * n) \<and>
     (victoryFlag s \<longleftrightarrow> hit s)"

subsection \<open>Example sessions\<close>

text \<open>
  A drop of a piece image on square \<open>k\<close>; a game initialised on a page that holds the
  container; a 3 by 3 game that Player 1 wins on row 0 with a piece that also completes
  the main diagonal; a 3 by 3 game that ends in a draw; and a state in which a square
  carries a \<open>data-x\<close> outside the grid.
\<close>

definition put :: "string \<Rightarrow> nat \<Rightarrow> action" where
  "put piece k = Drop \<lparr>dataTransfer = piece, target = Div k\<rparr>"

definition new_game :: "int \<Rightarrow> state" where
  "new_game n = the (initTicTacToe (Some ''board'') n ''images'' loaded)"

definition diagonal_game :: "action list" where
  "diagonal_game =
     [put ''player-1'' 4, put ''player-2'' 3, put ''player-1'' 8, put ''player-2'' 6,
      put ''player-1'' 1, put ''player-2'' 7, put ''player-1'' 2, put ''player-2'' 5,
      put ''player-1'' 0]"

definition drawn_game :: "action list" where
  "drawn_game =
     [put ''player-1'' 0, put ''player-2'' 1, put ''player-1'' 2, put ''player-2'' 4,
      put ''player-1'' 3, put ''player-2'' 5, put ''player-1'' 7, put ''player-2'' 6,
      put ''player-1'' 8]"

definition stray :: state where
  "stray = (new_game 3)\<lparr>squares := (squares (new_game 3))[0 := getNewBoardSquare 3 0]\<rparr>"

section \<open>Lemmas\<close>

subsection \<open>Sums over squares and the cells of a line\<close>

lemma occupant_range: "occupant q = 0 \<or> occupant q = 1 \<or> occupant q = - 1"
  by (simp add: occupant_def PLAYER_ONE_def PLAYER_TWO_def split: list.split)

lemma occupant_abs: "\<bar>occupant q\<bar> \<le> 1"
  using occupant_range [of q] by linarith

lemma total_bounds:
  "\<bar>sum_list (map (\<lambda>q. if P q then occupant q else 0) qs)\<bar> \<le> int (length (filter P qs))"
proof (induction qs)
  case Nil
  show ?case by simp
next
  case (Cons q qs)
  have "\<bar>occupant q + sum_list (map (\<lambda>q. if P q then occupant q else 0) qs)\<bar>
        \<le> 1 + int (length (filter P qs))"
    using Cons.IH occupant_abs [of q] by linarith
  then show ?case using Cons.IH by simp
qed


lemma sum_list_map_update:
  fixes f :: "'a \<Rightarrow> int"
  shows "k < length xs \<Longrightarrow>
         sum_list (map f (xs[k := v])) = sum_list (map f xs) - f (xs ! k) + f v"
proof (induction xs arbitrary: k)
  case Nil
  then show ?case by simp
next
  case (Cons x xs)
  then show ?case by (cases k) simp_all
qed

lemma length_filter_update:
  "k < length xs \<Longrightarrow> \<not> P (xs ! k) \<Longrightarrow> P v \<Longrightarrow>
   length (filter P (xs[k := v])) = Suc (length (filter P xs))"
proof (induction xs arbitrary: k)
  case Nil
  then show ?case by simp
next
  case (Cons x xs)
  then show ?case by (cases k) simp_all
qed

lemma count_eq_upt: "length (filter (\<lambda>x. x = a) [0 ..< m]) = (if a < m then 1 else 0)"
  by (induction m) auto

lemma length_filter_concat:
  "length (filter P (concat xss)) = sum_list (map (\<lambda>xs. length (filter P xs)) xss)"
  by (induction xss) simp_all

lemma sum_list_const_upt: "sum_list (map (\<lambda>y. c) [0 ..< m]) = m * (c::nat)"
  by (induction m) simp_all

lemma sum_list_single_upt:
  "sum_list (map (\<lambda>y. if y = b then c else 0) [0 ..< m]) = (if b < m then (c::nat) else 0)"
  by (induction m) auto

lemma board_count:
  assumes "\<And>y. y < m \<Longrightarrow> length (filter (\<lambda>x. P (int x, int y)) [0 ..< m]) = g y"
  shows "length (filter P (concat (map (\<lambda>y. map (\<lambda>x. (int x, int y)) [0 ..< m]) [0 ..< m])))
         = sum_list (map g [0 ..< m])"
proof -
  have "length (filter P (concat (map (\<lambda>y. map (\<lambda>x. (int x, int y)) [0 ..< m]) [0 ..< m])))
        = sum_list (map (\<lambda>y. length (filter (\<lambda>x. P (int x, int y)) [0 ..< m])) [0 ..< m])"
    by (simp add: length_filter_concat filter_map comp_def)
  also have "\<dots> = sum_list (map g [0 ..< m])"
    by (rule arg_cong [where f = sum_list], rule map_cong) (simp_all add: assms)
  finally show ?thesis .
qed

lemma column_count:
  assumes "0 \<le> i" "i < n"
  shows "length (filter (\<lambda>c. fst c = i) (board_coords n)) = nat n"
proof -
  have "\<And>y. length (filter (\<lambda>x. fst (int x, int y) = i) [0 ..< nat n]) = 1"
  proof -
    fix y
    have "(\<lambda>x. fst (int x, int y) = i) = (\<lambda>x. x = nat i)" using assms by auto
    then show "length (filter (\<lambda>x. fst (int x, int y) = i) [0 ..< nat n]) = 1"
      using assms by (simp add: count_eq_upt)
  qed
  then show ?thesis
    unfolding board_coords_def by (subst board_count [where g = "\<lambda>y. 1"]) (simp_all add: sum_list_const_upt)
qed

lemma row_count:
  assumes "0 \<le> j" "j < n"
  shows "length (filter (\<lambda>c. snd c = j) (board_coords n)) = nat n"
proof -
  have "\<And>y. length (filter (\<lambda>x. snd (int x, int y) = j) [0 ..< nat n]) = (if y = nat j then nat n else 0)"
  proof -
    fix y
    have "(int y = j) = (y = nat j)" using assms by auto
    then show "length (filter (\<lambda>x. snd (int x, int y) = j) [0 ..< nat n]) = (if y = nat j then nat n else 0)"
      by simp
  qed
  then show ?thesis
    unfolding board_coords_def using assms
    by (subst board_count [where g = "\<lambda>y. if y = nat j then nat n else 0"]) (simp_all add: sum_list_single_upt)
qed

lemma diag_count:
  "length (filter (\<lambda>c. fst c = snd c) (board_coords n)) = nat n"
proof -
  have "\<And>y. y < nat n \<Longrightarrow> length (filter (\<lambda>x. fst (int x, int y) = snd (int x, int y)) [0 ..< nat n]) = 1"
    by (simp add: count_eq_upt)
  then show ?thesis
    unfolding board_coords_def
    by (subst board_count [where g = "\<lambda>y. 1"]) (simp_all add: sum_list_const_upt)
qed

lemma anti_count:
  "length (filter (\<lambda>c. fst c + snd c = n - 1) (board_coords n)) = nat n"
proof -
  have "\<And>y. y < nat n \<Longrightarrow> length (filter (\<lambda>x. fst (int x, int y) + snd (int x, int y) = n - 1) [0 ..< nat n]) = 1"
  proof -
    fix y assume y: "y < nat n"
    have "(\<lambda>x. fst (int x, int y) + snd (int x, int y) = n - 1) = (\<lambda>x. x = nat n - 1 - y)"
      using y by (auto simp: fun_eq_iff)
    then show "length (filter (\<lambda>x. fst (int x, int y) + snd (int x, int y) = n - 1) [0 ..< nat n]) = 1"
      using y by (simp add: count_eq_upt)
  qed
  then show ?thesis
    unfolding board_coords_def
    by (subst board_count [where g = "\<lambda>y. 1"]) (simp_all add: sum_list_const_upt)
qed

lemma board_coords_range:
  "c \<in> set (board_coords n) \<Longrightarrow> 0 \<le> fst c \<and> fst c < n \<and> 0 \<le> snd c \<and> snd c < n"
  by (auto simp: board_coords_def)

lemma length_board_coords: "length (board_coords n) = nat n * nat n"
  by (simp add: board_coords_def length_concat comp_def sum_list_const_upt)

lemma line_cells_count:
  assumes "map coords qs = board_coords n" "is_line n l"
  shows "length (filter (on_line n l) qs) = nat n"
proof -
  have eq: "\<And>P. length (filter (\<lambda>q. P (coords q)) qs) = length (filter P (board_coords n))"
  proof -
    fix P :: "int \<times> int \<Rightarrow> bool"
    have "length (filter P (map coords qs)) = length (filter (\<lambda>q. P (coords q)) qs)"
      by (simp add: filter_map comp_def)
    then show "length (filter (\<lambda>q. P (coords q)) qs) = length (filter P (board_coords n))"
      using assms(1) by simp
  qed
  show ?thesis
  proof (cases l)
    case (Column i)
    have "on_line n l = (\<lambda>q. fst (coords q) = i)" by (simp add: Column coords_def fun_eq_iff)
    then show ?thesis using eq [of "\<lambda>c. fst c = i"] assms(2) Column by (simp add: column_count)
  next
    case (Row j)
    have "on_line n l = (\<lambda>q. snd (coords q) = j)" by (simp add: Row coords_def fun_eq_iff)
    then show ?thesis using eq [of "\<lambda>c. snd c = j"] assms(2) Row by (simp add: row_count)
  next
    case MainDiagonal
    have "on_line n l = (\<lambda>q. fst (coords q) = snd (coords q))"
      by (simp add: MainDiagonal coords_def fun_eq_iff)
    then show ?thesis using eq [of "\<lambda>c. fst c = snd c"] by (simp add: diag_count)
  next
    case AntiDiagonal
    have "on_line n l = (\<lambda>q. fst (coords q) + snd (coords q) = n - 1)"
      by (simp add: AntiDiagonal coords_def fun_eq_iff)
    then show ?thesis using eq [of "\<lambda>c. fst c + snd c = n - 1"] by (simp add: anti_count)
  qed
qed

subsection \<open>Resetting and the victory update\<close>

lemma awaitContainer_Some [simp]: "awaitContainer found (Some el) = Some el"
  by (subst awaitContainer.simps) simp

lemma awaitContainer_found [simp]: "awaitContainer (Some el) None = Some el"
  by (subst awaitContainer.simps) simp

lemma awaitContainer_returns:
  assumes "awaitContainer found c = Some y"
  shows "found \<noteq> None \<or> c \<noteq> None"
  by (rule awaitContainer.raw_induct
        [where P = "\<lambda>found c y. found \<noteq> None \<or> c \<noteq> None", OF _ assms])
     (auto split: option.splits)

lemma awaitContainer_never: "awaitContainer None None = None"
proof (cases "awaitContainer None None")
  case None
  then show ?thesis .
next
  case (Some y)
  then show ?thesis using awaitContainer_returns by blast
qed

lemma clearSquare_eq:
  "clearSquare q =
     q\<lparr>childNodes := [], className := (if childNodes q = [] then className q else ''square'')\<rparr>"
proof (induction q rule: clearSquare.induct)
  case (1 q)
  show ?case
  proof (cases "childNodes q = []")
    case True
    then show ?thesis by (subst clearSquare.simps) simp
  next
    case False
    have "clearSquare q
          = clearSquare (q\<lparr>childNodes := butlast (childNodes q), className := ''square''\<rparr>)"
      using False by (subst clearSquare.simps) simp
    also have "\<dots> = q\<lparr>childNodes := [], className := ''square''\<rparr>"
      using "1.IH" [OF False] by simp
    finally show ?thesis using False by simp
  qed
qed

lemma push_zeros: "fold (\<lambda>i a. js_push a (Num 0)) [0 ..< k] js_empty = zeros k"
proof (induction k)
  case 0
  show ?case by (simp add: js_empty_def zeros_def fun_eq_iff)
next
  case (Suc k)
  have "js_push (zeros k) (Num 0) = zeros (Suc k)"
    by (auto simp: js_push_def zeros_def fun_eq_iff)
  then show ?case using Suc by simp
qed

lemma resetGame_eq:
  "resetGame s =
     s\<lparr>gameOver := False, victoryFlag := False, turnCount := 0, currentPlayer := PLAYER_ONE,
       message := ''Player 1 starts the game'', messageNode := ''Player 1 starts the game'',
       lineSums := zeros (nat (GRID_SIZE s * 2 + 2)),
       squares := map clearSquare (squares s)\<rparr>"
  by (simp add: resetGame_def Let_def push_zeros getPlayerName_def PLAYER_ONE_NAME_def)

lemma js_get_set [simp]: "js_get (js_set a i v) j = (if j = i then v else js_get a j)"
  by (simp add: js_get_def js_set_def)

lemma uvc_stages:
  obtains L1 L2 L3 L4 v1 v2 v3 where
    "L1 = js_set (lineSums s) x (js_plus (js_get (lineSums s) x) p)"
    "L2 = js_set L1 (GRID_SIZE s + y) (js_plus (js_get L1 (GRID_SIZE s + y)) p)"
    "v1 = (js_abs_is (js_get L2 x) (GRID_SIZE s) \<or>
           js_abs_is (js_get L2 (GRID_SIZE s + y)) (GRID_SIZE s))"
    "L3 = (if \<not> v1 \<and> x = y
           then js_set L2 (GRID_SIZE s * 2) (js_plus (js_get L2 (GRID_SIZE s * 2)) p) else L2)"
    "v2 = (if \<not> v1 \<and> x = y then js_abs_is (js_get L3 (GRID_SIZE s * 2)) (GRID_SIZE s) else v1)"
    "L4 = (if \<not> v2 \<and> \<bar>x - (GRID_SIZE s - 1)\<bar> = y
           then js_set L3 (GRID_SIZE s * 2 + 1) (js_plus (js_get L3 (GRID_SIZE s * 2 + 1)) p)
           else L3)"
    "v3 = (if \<not> v2 \<and> \<bar>x - (GRID_SIZE s - 1)\<bar> = y
           then js_abs_is (js_get L4 (GRID_SIZE s * 2 + 1)) (GRID_SIZE s) else v2)"
    "updateVictoryConditions x y p s = s\<lparr>lineSums := L4, victoryFlag := v3\<rparr>"
proof -
  define s1 where "s1 = s\<lparr>lineSums := js_set (lineSums s) x (js_plus (js_get (lineSums s) x) p)\<rparr>"
  define s2 where "s2 = s1\<lparr>lineSums := js_set (lineSums s1) (GRID_SIZE s1 + y)
                                  (js_plus (js_get (lineSums s1) (GRID_SIZE s1 + y)) p)\<rparr>"
  define s3 where "s3 = s2\<lparr>victoryFlag :=
                   (js_abs_is (js_get (lineSums s2) x) (GRID_SIZE s2) \<or>
                    js_abs_is (js_get (lineSums s2) (GRID_SIZE s2 + y)) (GRID_SIZE s2))\<rparr>"
  define t3 where "t3 = s3\<lparr>lineSums := js_set (lineSums s3) (GRID_SIZE s3 * 2)
                                   (js_plus (js_get (lineSums s3) (GRID_SIZE s3 * 2)) p)\<rparr>"
  define s4 where "s4 = (if \<not> victoryFlag s3 \<and> x = y
                then t3\<lparr>victoryFlag :=
                             js_abs_is (js_get (lineSums t3) (GRID_SIZE t3 * 2)) (GRID_SIZE t3)\<rparr>
                else s3)"
  define t4 where "t4 = s4\<lparr>lineSums := js_set (lineSums s4) (GRID_SIZE s4 * 2 + 1)
                             (js_plus (js_get (lineSums s4) (GRID_SIZE s4 * 2 + 1)) p)\<rparr>"
  define s5 where "s5 = (if \<not> victoryFlag s4 \<and> \<bar>x - (GRID_SIZE s4 - 1)\<bar> = y
          then t4\<lparr>victoryFlag :=
                       js_abs_is (js_get (lineSums t4) (GRID_SIZE t4 * 2 + 1)) (GRID_SIZE t4)\<rparr>
          else s4)"
  have e: "updateVictoryConditions x y p s = s5"
    unfolding updateVictoryConditions_def
    apply (subst Let_def)
    apply (fold s1_def)
    apply (subst Let_def)
    apply (fold s2_def)
    apply (subst Let_def)
    apply (fold s3_def)
    unfolding s5_def t4_def s4_def t3_def Let_def
    apply (rule refl)
    done
  define L1 where "L1 = js_set (lineSums s) x (js_plus (js_get (lineSums s) x) p)"
  define L2 where "L2 = js_set L1 (GRID_SIZE s + y) (js_plus (js_get L1 (GRID_SIZE s + y)) p)"
  define v1 where "v1 = (js_abs_is (js_get L2 x) (GRID_SIZE s) \<or>
           js_abs_is (js_get L2 (GRID_SIZE s + y)) (GRID_SIZE s))"
  define L3 where "L3 = (if \<not> v1 \<and> x = y
           then js_set L2 (GRID_SIZE s * 2) (js_plus (js_get L2 (GRID_SIZE s * 2)) p) else L2)"
  define v2 where "v2 = (if \<not> v1 \<and> x = y
           then js_abs_is (js_get L3 (GRID_SIZE s * 2)) (GRID_SIZE s) else v1)"
  define L4 where "L4 = (if \<not> v2 \<and> \<bar>x - (GRID_SIZE s - 1)\<bar> = y
           then js_set L3 (GRID_SIZE s * 2 + 1) (js_plus (js_get L3 (GRID_SIZE s * 2 + 1)) p)
           else L3)"
  define v3 where "v3 = (if \<not> v2 \<and> \<bar>x - (GRID_SIZE s - 1)\<bar> = y
           then js_abs_is (js_get L4 (GRID_SIZE s * 2 + 1)) (GRID_SIZE s) else v2)"
  have 1: "s1 = s\<lparr>lineSums := L1\<rparr>"
    by (simp add: s1_def L1_def)
  have 2: "s2 = s\<lparr>lineSums := L2\<rparr>"
    by (simp add: s2_def 1 L2_def)
  have 3: "s3 = s\<lparr>lineSums := L2, victoryFlag := v1\<rparr>"
    by (simp add: s3_def 2 v1_def)
  have 4: "s4 = s\<lparr>lineSums := L3, victoryFlag := v2\<rparr>"
    by (simp add: s4_def t3_def 3 L3_def v2_def)
  have 5: "s5 = s\<lparr>lineSums := L4, victoryFlag := v3\<rparr>"
    by (simp add: s5_def t4_def 4 L4_def v3_def)
  show thesis
    using that [OF L1_def L2_def v1_def L3_def v2_def L4_def v3_def] e 5 by simp
qed

lemma uvc_frame:
  "GRID_SIZE (updateVictoryConditions x y p s) = GRID_SIZE s"
  "NUMBER_OF_SQUARES (updateVictoryConditions x y p s) = NUMBER_OF_SQUARES s"
  "squares (updateVictoryConditions x y p s) = squares s"
  "controls (updateVictoryConditions x y p s) = controls s"
  "gameOver (updateVictoryConditions x y p s) = gameOver s"
  "currentPlayer (updateVictoryConditions x y p s) = currentPlayer s"
  "turnCount (updateVictoryConditions x y p s) = turnCount s"
  "initialized (updateVictoryConditions x y p s) = initialized s"
  "message (updateVictoryConditions x y p s) = message s"
  "messageNode (updateVictoryConditions x y p s) = messageNode s"
proof -
  obtain L v where e: "updateVictoryConditions x y p s = s\<lparr>lineSums := L, victoryFlag := v\<rparr>"
    by (rule uvc_stages)
  show "GRID_SIZE (updateVictoryConditions x y p s) = GRID_SIZE s"
    "NUMBER_OF_SQUARES (updateVictoryConditions x y p s) = NUMBER_OF_SQUARES s"
    "squares (updateVictoryConditions x y p s) = squares s"
    "controls (updateVictoryConditions x y p s) = controls s"
    "gameOver (updateVictoryConditions x y p s) = gameOver s"
    "currentPlayer (updateVictoryConditions x y p s) = currentPlayer s"
    "turnCount (updateVictoryConditions x y p s) = turnCount s"
    "initialized (updateVictoryConditions x y p s) = initialized s"
    "message (updateVictoryConditions x y p s) = message s"
    "messageNode (updateVictoryConditions x y p s) = messageNode s"
    by (simp_all add: e)
qed

lemma uvc_sums:
  fixes p :: int
  assumes n: "GRID_SIZE s = n" and x: "0 \<le> x" "x < n" and y: "0 \<le> y" "y < n"
    and a: "js_get (lineSums s) x = Num a"
    and b: "js_get (lineSums s) (n + y) = Num b"
    and c: "js_get (lineSums s) (2 * n) = Num c"
    and d: "js_get (lineSums s) (2 * n + 1) = Num d"
  defines "w1 \<equiv> \<bar>a + p\<bar> = n \<or> \<bar>b + p\<bar> = n"
  defines "c' \<equiv> (if \<not> w1 \<and> x = y then c + p else c)"
  defines "w2 \<equiv> (if \<not> w1 \<and> x = y then \<bar>c'\<bar> = n else w1)"
  defines "d' \<equiv> (if \<not> w2 \<and> x + y = n - 1 then d + p else d)"
  defines "w3 \<equiv> (if \<not> w2 \<and> x + y = n - 1 then \<bar>d'\<bar> = n else w2)"
  defines "s' \<equiv> updateVictoryConditions x y p s"
  shows "js_get (lineSums s') x = Num (a + p)"
    and "js_get (lineSums s') (n + y) = Num (b + p)"
    and "js_get (lineSums s') (2 * n) = Num c'"
    and "js_get (lineSums s') (2 * n + 1) = Num d'"
    and "\<And>i. i \<noteq> x \<Longrightarrow> i \<noteq> n + y \<Longrightarrow> i \<noteq> 2 * n \<Longrightarrow> i \<noteq> 2 * n + 1 \<Longrightarrow>
             js_get (lineSums s') i = js_get (lineSums s) i"
    and "victoryFlag s' = w3"
proof -
  obtain L1 L2 L3 L4 v1 v2 v3 where
    L1: "L1 = js_set (lineSums s) x (js_plus (js_get (lineSums s) x) p)" and
    L2: "L2 = js_set L1 (GRID_SIZE s + y) (js_plus (js_get L1 (GRID_SIZE s + y)) p)" and
    v1: "v1 = (js_abs_is (js_get L2 x) (GRID_SIZE s) \<or>
           js_abs_is (js_get L2 (GRID_SIZE s + y)) (GRID_SIZE s))" and
    L3: "L3 = (if \<not> v1 \<and> x = y
           then js_set L2 (GRID_SIZE s * 2) (js_plus (js_get L2 (GRID_SIZE s * 2)) p) else L2)" and
    v2: "v2 = (if \<not> v1 \<and> x = y then js_abs_is (js_get L3 (GRID_SIZE s * 2)) (GRID_SIZE s) else v1)" and
    L4: "L4 = (if \<not> v2 \<and> \<bar>x - (GRID_SIZE s - 1)\<bar> = y
           then js_set L3 (GRID_SIZE s * 2 + 1) (js_plus (js_get L3 (GRID_SIZE s * 2 + 1)) p)
           else L3)" and
    v3: "v3 = (if \<not> v2 \<and> \<bar>x - (GRID_SIZE s - 1)\<bar> = y
           then js_abs_is (js_get L4 (GRID_SIZE s * 2 + 1)) (GRID_SIZE s) else v2)" and
    e: "updateVictoryConditions x y p s = s\<lparr>lineSums := L4, victoryFlag := v3\<rparr>"
    by (rule uvc_stages)
  have anti: "(\<bar>x - (n - 1)\<bar> = y) = (x + y = n - 1)"
    using x y by linarith
  have ne: "x \<noteq> n + y" "x \<noteq> 2 * n" "x \<noteq> 2 * n + 1" "n + y \<noteq> 2 * n" "n + y \<noteq> 2 * n + 1"
    using x y by simp_all
  have eq: "n * 2 = 2 * n" by simp
  have l1: "\<And>i. js_get L1 i = (if i = x then Num (a + p) else js_get (lineSums s) i)"
    by (simp add: L1 a)
  have l2: "\<And>i. js_get L2 i =
              (if i = n + y then Num (b + p) else if i = x then Num (a + p)
               else js_get (lineSums s) i)"
    using ne by (simp add: L2 n l1 b)
  have w1: "v1 = w1"
    using ne by (simp add: v1 n l2 w1_def)
  have l3: "\<And>i. js_get L3 i = (if i = 2 * n then Num c' else js_get L2 i)"
    using ne by (simp add: L3 n l2 w1 c c'_def eq)
  have w2: "v2 = w2"
    using ne by (simp add: v2 n l3 w1 w2_def eq)
  have l4: "\<And>i. js_get L4 i = (if i = 2 * n + 1 then Num d' else js_get L3 i)"
    using ne by (simp add: L4 n l3 l2 w2 d d'_def anti eq)
  have w3: "v3 = w3"
    using ne by (simp add: v3 n l4 w2 w3_def anti eq)
  have ls: "lineSums s' = L4" and vf: "victoryFlag s' = v3"
    by (simp_all add: s'_def e)
  show "js_get (lineSums s') x = Num (a + p)"
    using ne by (simp add: ls l4 l3 l2)
  show "js_get (lineSums s') (n + y) = Num (b + p)"
    using ne by (simp add: ls l4 l3 l2)
  show "js_get (lineSums s') (2 * n) = Num c'"
    by (simp add: ls l4 l3)
  show "js_get (lineSums s') (2 * n + 1) = Num d'"
    by (simp add: ls l4)
  show "\<And>i. i \<noteq> x \<Longrightarrow> i \<noteq> n + y \<Longrightarrow> i \<noteq> 2 * n \<Longrightarrow> i \<noteq> 2 * n + 1 \<Longrightarrow>
             js_get (lineSums s') i = js_get (lineSums s) i"
    by (simp add: ls l4 l3 l2)
  show "victoryFlag s' = w3"
    by (simp add: vf w3)
qed

subsection \<open>The cases of a drop\<close>

lemma endTurn_frame:
  "GRID_SIZE (endTurn s) = GRID_SIZE s"
  "NUMBER_OF_SQUARES (endTurn s) = NUMBER_OF_SQUARES s"
  "squares (endTurn s) = squares s"
  "controls (endTurn s) = controls s"
  "lineSums (endTurn s) = lineSums s"
  "victoryFlag (endTurn s) = victoryFlag s"
  "initialized (endTurn s) = initialized s"
  "turnCount (endTurn s) = turnCount s + 1"
  "gameOver (endTurn s) =
     (if victoryFlag s \<or> NUMBER_OF_SQUARES s \<le> turnCount s + 1 then True else gameOver s)"
  by (simp_all add: endTurn_def Let_def)

lemma drop_ev_legal:
  assumes "legal e s"
  shows "drop_ev e s =
           (case takeTurn e s of Inl err \<Rightarrow> Inl err | Inr s1 \<Rightarrow> Inr (shown (endTurn s1)))"
proof (cases "resolve s (target e)")
  case None
  then show ?thesis using assms by (simp add: legal_def)
next
  case (Some object)
  then have "\<not> gameOver s \<and> piece_of e = currentPlayer s \<and> \<not> isOccupied object"
    using assms by (simp add: legal_def)
  then show ?thesis
    unfolding drop_ev_def Let_def piece_of_def shown_def
    by (simp add: Some split: sum.split)
qed

lemma drop_ev_illegal:
  assumes "\<not> legal e s" "resolve s (target e) = Some object"
  shows "drop_ev e s = Inr (shown (s\<lparr>message := refusal e s\<rparr>))"
proof -
  have c: "gameOver s \<or> piece_of e \<noteq> currentPlayer s \<or> isOccupied object"
    using assms by (simp add: legal_def)
  show ?thesis
  proof (cases "gameOver s")
    case True
    then show ?thesis
      unfolding drop_ev_def Let_def shown_def refusal_def
      by (simp add: assms(2))
  next
    case False
    note ng = this
    show ?thesis
    proof (cases "piece_of e = currentPlayer s")
      case True
      then have "isOccupied object" using c ng by simp
      then show ?thesis using True ng
        unfolding drop_ev_def Let_def shown_def refusal_def piece_of_def
        by (simp add: assms(2))
    next
      case False
      then show ?thesis using ng
        unfolding drop_ev_def Let_def shown_def refusal_def piece_of_def
        by (simp add: assms(2))
    qed
  qed
qed

lemma drop_ev_unresolved:
  "resolve s (target e) = None \<Longrightarrow> drop_ev e s = Inr s"
  by (simp add: drop_ev_def)

lemma legal_iff:
  "legal e s =
     (\<exists>k. target e = Div k \<and> k < length (squares s) \<and> childNodes (squares s ! k) = [] \<and>
          \<not> gameOver s \<and> piece_of e = currentPlayer s)"
proof (cases "target e")
  case (Div k)
  then show ?thesis by (simp add: legal_def isOccupied_def)
next
  case (Img k)
  then show ?thesis by (simp add: legal_def isOccupied_def)
qed

lemma takeTurn_ok:
  assumes "target e = Div k" "k < length (squares s)" "dataTransfer e \<in> set (controls s)"
  shows "takeTurn e s =
           Inr (updateVictoryConditions (data_x (squares s ! k)) (data_y (squares s ! k))
                  (piece_of e) (placed e k s))"
  using assms
  by (simp add: takeTurn_def getElementById_def piece_of_def placed_def Let_def)

lemma takeTurn_fail:
  assumes "target e = Div k" "k < length (squares s)" "dataTransfer e \<notin> set (controls s)"
  shows "takeTurn e s = Inl TypeError"
  using assms
  by (simp add: takeTurn_def getElementById_def Let_def)

lemma drop_accept:
  assumes "legal e s" "target e = Div k" "dataTransfer e \<in> set (controls s)"
  shows "drop_ev e s =
           Inr (shown (endTurn (updateVictoryConditions (data_x (squares s ! k))
                  (data_y (squares s ! k)) (piece_of e) (placed e k s))))"
proof -
  have "k < length (squares s)" using assms(1,2) by (auto simp: legal_iff)
  then show ?thesis
    by (simp add: drop_ev_legal [OF assms(1)] takeTurn_ok [OF assms(2) _ assms(3)])
qed

lemma drop_fail:
  assumes "legal e s" "dataTransfer e \<notin> set (controls s)"
  shows "drop_ev e s = Inl TypeError"
proof -
  obtain k where "target e = Div k" "k < length (squares s)"
    using assms(1) by (auto simp: legal_iff)
  then show ?thesis
    by (simp add: drop_ev_legal [OF assms(1)] takeTurn_fail [OF _ _ assms(2)])
qed

subsection \<open>Well-formed states\<close>

lemma coords_board: "map coords (board n) = board_coords n"
  by (simp add: board_def board_coords_def map_concat comp_def coords_def getNewBoardSquare_def)

lemma board_empty: "q \<in> set (board n) \<Longrightarrow> childNodes q = []"
  by (auto simp: board_def getNewBoardSquare_def)

lemma clear_board: "map clearSquare (board n) = board n"
proof -
  have "\<And>q. q \<in> set (board n) \<Longrightarrow> clearSquare q = q"
    by (simp add: clearSquare_eq board_empty)
  then show ?thesis by (simp add: map_idI)
qed

lemma coords_clear: "coords (clearSquare q) = coords q"
  by (simp add: clearSquare_eq coords_def)

lemma children_clear: "childNodes (clearSquare q) = []"
  by (simp add: clearSquare_eq)

lemma isOccupied_square [simp]: "isOccupied (SquareEl q) = (childNodes q \<noteq> [])"
  by (simp add: isOccupied_def)

lemma init_Some:
  assumes "initTicTacToe found n dir s0 = Some s1" "\<not> initialized s0"
  obtains el where
    "s1 = s0\<lparr>initialized := True, GRID_SIZE := n, NUMBER_OF_SQUARES := n * n,
               IMAGE_DIR := dir, container := Some el,
               controls := [''player-1'', ''player-2''], squares := board n,
               lineSums := zeros (nat (n * 2 + 2)),
               message := ''Player 1 starts the game'',
               messageNode := ''Player 1 starts the game'',
               gameOver := False, victoryFlag := False,
               currentPlayer := PLAYER_ONE, turnCount := 0\<rparr>"
proof -
  obtain el where el: "awaitContainer found (container s0) = Some el"
    using assms by (auto simp: initTicTacToe_def Let_def split: option.splits)
  have "s1 = (resetGame (createGameControls (createMessageDisplay (createGameBoard
                (s0\<lparr>GRID_SIZE := n, NUMBER_OF_SQUARES := n * n, IMAGE_DIR := dir,
                     container := Some el\<rparr>)))))\<lparr>initialized := True\<rparr>"
    using assms el by (simp add: initTicTacToe_def Let_def)
  then have "s1 = s0\<lparr>initialized := True, GRID_SIZE := n, NUMBER_OF_SQUARES := n * n,
               IMAGE_DIR := dir, container := Some el,
               controls := [''player-1'', ''player-2''], squares := board n,
               lineSums := zeros (nat (n * 2 + 2)),
               message := ''Player 1 starts the game'',
               messageNode := ''Player 1 starts the game'',
               gameOver := False, victoryFlag := False,
               currentPlayer := PLAYER_ONE, turnCount := 0\<rparr>"
    using assms(2)
    by (simp add: resetGame_eq createGameControls_def createMessageDisplay_def
        createGameBoard_def board_def [symmetric] clear_board)
  then show thesis by (rule that)
qed

lemma init_returns:
  assumes "\<not> initialized s0"
  shows "\<exists>s1. initTicTacToe (Some el) n dir s0 = Some s1"
proof (cases "container s0")
  case None
  then show ?thesis using assms by (simp add: initTicTacToe_def Let_def)
next
  case (Some c)
  then show ?thesis using assms by (simp add: initTicTacToe_def Let_def)
qed

lemma wellformed_init:
  assumes "initTicTacToe found n dir s0 = Some s1" "\<not> initialized s0"
  shows "wellformed n s1"
proof -
  obtain el where e:
    "s1 = s0\<lparr>initialized := True, GRID_SIZE := n, NUMBER_OF_SQUARES := n * n,
               IMAGE_DIR := dir, container := Some el,
               controls := [''player-1'', ''player-2''], squares := board n,
               lineSums := zeros (nat (n * 2 + 2)),
               message := ''Player 1 starts the game'',
               messageNode := ''Player 1 starts the game'',
               gameOver := False, victoryFlag := False,
               currentPlayer := PLAYER_ONE, turnCount := 0\<rparr>"
    using assms by (rule init_Some)
  have sq: "squares s1 = board n" by (simp add: e)
  have "occupied_count s1 = 0"
    by (simp add: occupied_count_def sq filter_empty_conv board_empty)
  then show ?thesis by (simp add: wellformed_def coords_board e)
qed

lemma reset_init:
  assumes "initTicTacToe found n dir s0 = Some s1" "\<not> initialized s0"
  shows "resetGame s1 = s1"
proof -
  obtain el where e:
    "s1 = s0\<lparr>initialized := True, GRID_SIZE := n, NUMBER_OF_SQUARES := n * n,
               IMAGE_DIR := dir, container := Some el,
               controls := [''player-1'', ''player-2''], squares := board n,
               lineSums := zeros (nat (n * 2 + 2)),
               message := ''Player 1 starts the game'',
               messageNode := ''Player 1 starts the game'',
               gameOver := False, victoryFlag := False,
               currentPlayer := PLAYER_ONE, turnCount := 0\<rparr>"
    using assms by (rule init_Some)
  show ?thesis unfolding e by (simp add: resetGame_eq clear_board)
qed

lemma wellformed_resetGame: "wellformed n s \<Longrightarrow> wellformed n (resetGame s)"
  by (simp add: wellformed_def resetGame_eq occupied_count_def comp_def coords_clear children_clear)

lemma wellformed_message: "wellformed n (s\<lparr>message := m\<rparr>) = wellformed n s"
  by (simp add: wellformed_def occupied_count_def)

lemma wellformed_shown: "wellformed n (shown s) = wellformed n s"
  by (simp add: wellformed_def occupied_count_def shown_def)

lemma coords_placed:
  "k < length (squares s) \<Longrightarrow> map coords (squares (placed e k s)) = map coords (squares s)"
  by (simp add: placed_def map_update coords_def list_update_same_conv)

lemma count_placed:
  assumes "k < length (squares s)" "childNodes (squares s ! k) = []"
  shows "occupied_count (placed e k s) = Suc (occupied_count s)"
  using assms
  by (simp add: occupied_count_def placed_def length_filter_update)

lemma placed_frame:
  "GRID_SIZE (placed e k s) = GRID_SIZE s"
  "NUMBER_OF_SQUARES (placed e k s) = NUMBER_OF_SQUARES s"
  "controls (placed e k s) = controls s"
  "lineSums (placed e k s) = lineSums s"
  "gameOver (placed e k s) = gameOver s"
  "turnCount (placed e k s) = turnCount s"
  "currentPlayer (placed e k s) = currentPlayer s"
  by (simp_all add: placed_def)

lemma moved_frame:
  "GRID_SIZE (moved e k s) = GRID_SIZE s"
  "NUMBER_OF_SQUARES (moved e k s) = NUMBER_OF_SQUARES s"
  "controls (moved e k s) = controls s"
  "squares (moved e k s) = squares (placed e k s)"
  "turnCount (moved e k s) = turnCount s + 1"
  by (simp_all add: moved_def shown_def endTurn_frame uvc_frame placed_frame)

lemma wellformed_moved:
  assumes "wellformed n s" "k < length (squares s)" "childNodes (squares s ! k) = []"
  shows "wellformed n (moved e k s)"
proof -
  have "occupied_count (moved e k s) = Suc (occupied_count s)"
    using count_placed [OF assms(2,3)] by (simp add: occupied_count_def moved_frame)
  then show ?thesis
    using assms(1) coords_placed [OF assms(2)] by (simp add: wellformed_def moved_frame)
qed

lemma step_cases:
  obtains (reset) "a = Reset" "step a s = resetGame s"
  | (same) "step a s = s"
  | (refused) e m where "a = Drop e" "\<not> legal e s" "step a s = shown (s\<lparr>message := m\<rparr>)"
  | (accepted) e k where "a = Drop e" "legal e s" "target e = Div k"
      "k < length (squares s)" "childNodes (squares s ! k) = []"
      "dataTransfer e \<in> set (controls s)" "step a s = moved e k s"
proof (cases a)
  case Reset
  then show thesis using reset by simp
next
  case (Drop e)
  show thesis
  proof (cases "legal e s")
    case False
    show thesis
    proof (cases "resolve s (target e)")
      case None
      then show thesis using same Drop by (simp add: drop_ev_unresolved)
    next
      case (Some object)
      then show thesis using refused [OF Drop False] Drop
        by (simp add: drop_ev_illegal [OF False Some])
    qed
  next
    case True
    then obtain k where k: "target e = Div k" "k < length (squares s)"
      "childNodes (squares s ! k) = []"
      by (auto simp: legal_iff)
    show thesis
    proof (cases "dataTransfer e \<in> set (controls s)")
      case False
      then show thesis using same Drop by (simp add: drop_fail [OF True])
    next
      case in_controls: True
      show thesis
        using accepted [OF Drop True k in_controls] Drop
        by (simp add: drop_accept [OF True k(1) in_controls] moved_def)
    qed
  qed
qed

lemma wellformed_step: "wellformed n s \<Longrightarrow> wellformed n (step a s)"
proof (cases a s rule: step_cases)
  case reset
  assume "wellformed n s"
  then show ?thesis using reset by (simp add: wellformed_resetGame)
next
  case same
  assume "wellformed n s"
  then show ?thesis using same by simp
next
  case (refused e m)
  assume "wellformed n s"
  then show ?thesis using refused by (simp add: wellformed_shown wellformed_message)
next
  case (accepted e k)
  assume "wellformed n s"
  then show ?thesis using accepted by (simp add: wellformed_moved)
qed

lemma wellformed_run: "wellformed n s \<Longrightarrow> wellformed n (run acts s)"
  unfolding run_def
proof (induction acts arbitrary: s)
  case Nil
  then show ?case by simp
next
  case (Cons a acts)
  then show ?case by (simp add: wellformed_step)
qed

subsection \<open>The line sums after a reset\<close>

lemma total_le:
  assumes "wellformed n s" "is_line n l" "0 \<le> n"
  shows "\<bar>line_total s l\<bar> \<le> n"
proof -
  have "map coords (squares s) = board_coords n" "GRID_SIZE s = n"
    using assms(1) by (simp_all add: wellformed_def)
  then have "length (filter (on_line (GRID_SIZE s) l) (squares s)) = nat n"
    using line_cells_count assms(2) by simp
  then have "\<bar>line_total s l\<bar> \<le> int (nat n)"
    unfolding line_total_def using total_bounds [of "on_line (GRID_SIZE s) l" "squares s"] by simp
  then show ?thesis using assms(3) by simp
qed

lemma slot_line:
  assumes "0 \<le> n"
  shows "(0 \<le> i \<and> i \<le> 2 * n + 1) = (\<exists>l. is_line n l \<and> slot n l = i)"
proof
  assume i: "0 \<le> i \<and> i \<le> 2 * n + 1"
  consider "i < n" | "n \<le> i" "i < 2 * n" | "i = 2 * n" | "i = 2 * n + 1"
    using i by linarith
  then show "\<exists>l. is_line n l \<and> slot n l = i"
  proof cases
    case 1
    then have "is_line n (Column i) \<and> slot n (Column i) = i" using i by simp
    then show ?thesis by blast
  next
    case 2
    then have "is_line n (Row (i - n)) \<and> slot n (Row (i - n)) = i" by simp
    then show ?thesis by blast
  next
    case 3
    then have "is_line n MainDiagonal \<and> slot n MainDiagonal = i" by simp
    then show ?thesis by blast
  next
    case 4
    then have "is_line n AntiDiagonal \<and> slot n AntiDiagonal = i" by simp
    then show ?thesis by blast
  qed
next
  assume "\<exists>l. is_line n l \<and> slot n l = i"
  then obtain l where l: "is_line n l" "slot n l = i" by blast
  then show "0 \<le> i \<and> i \<le> 2 * n + 1"
    using assms by (cases l) auto
qed

lemma hit_iff:
  assumes "0 \<le> n" "GRID_SIZE s = n"
  shows "hit s = (\<exists>l. is_line n l \<and> js_abs_is (line_sum s l) n)"
proof -
  have "hit s = (\<exists>i. (0 \<le> i \<and> i \<le> 2 * n + 1) \<and> js_abs_is (js_get (lineSums s) i) n)"
    by (auto simp: hit_def assms(2))
  also have "\<dots> = (\<exists>i. (\<exists>l. is_line n l \<and> slot n l = i) \<and> js_abs_is (js_get (lineSums s) i) n)"
    by (simp only: slot_line [OF assms(1)])
  also have "\<dots> = (\<exists>l. is_line n l \<and> js_abs_is (line_sum s l) n)"
    by (auto simp: line_sum_def assms(2))
  finally show ?thesis .
qed

lemma on_line_coords:
  "data_x q' = data_x q \<Longrightarrow> data_y q' = data_y q \<Longrightarrow> on_line n l q' = on_line n l q"
  by (cases l) simp_all

lemma occupant_empty: "childNodes q = [] \<Longrightarrow> occupant q = 0"
  by (simp add: occupant_def)

lemma total_placed:
  assumes "k < length (squares s)" "childNodes (squares s ! k) = []"
  shows "line_total (placed e k s) l =
           line_total s l + (if on_line (GRID_SIZE s) l (squares s ! k) then piece_of e else 0)"
proof -
  define q where "q = squares s ! k"
  define q' where "q' = q\<lparr>childNodes := childNodes q @ [dataTransfer e],
                          className := className q @ '' '' @ dataTransfer e\<rparr>"
  have sq: "squares (placed e k s) = (squares s)[k := q']" and g: "GRID_SIZE (placed e k s) = GRID_SIZE s"
    by (simp_all add: placed_def q'_def q_def)
  have on: "on_line (GRID_SIZE s) l q' = on_line (GRID_SIZE s) l q"
    by (rule on_line_coords) (simp_all add: q'_def)
  have oc: "occupant q' = piece_of e"
    using assms(2) by (simp add: q'_def q_def occupant_def piece_of_def)
  have o0: "occupant q = 0" using assms(2) by (simp add: q_def occupant_empty)
  show ?thesis
    unfolding line_total_def sq g
    by (simp add: sum_list_map_update [OF assms(1)] on oc o0 q_def [symmetric])
qed

lemma total_cleared:
  "sum_list (map (\<lambda>q. if P q then occupant q else 0) (map clearSquare qs)) = 0"
  by (induction qs) (simp_all add: occupant_empty children_clear)

lemma zeros_get: "0 \<le> i \<Longrightarrow> i < int k \<Longrightarrow> js_get (zeros k) i = Num 0"
  by (simp add: js_get_def zeros_def)

lemma session_inv_resetGame:
  assumes "wellformed n s" "1 \<le> n"
  shows "session_inv n (resetGame s)"
proof -
  have g: "GRID_SIZE s = n" using assms(1) by (simp add: wellformed_def)
  have g': "GRID_SIZE (resetGame s) = n" by (simp add: resetGame_eq g)
  have ls: "\<And>l. is_line n l \<Longrightarrow> line_sum (resetGame s) l = Num 0"
  proof -
    fix l assume "is_line n l"
    then have "0 \<le> slot n l \<and> slot n l \<le> 2 * n + 1"
      using slot_line [of n "slot n l"] assms(2) by auto
    then show "line_sum (resetGame s) l = Num 0"
      by (simp add: line_sum_def resetGame_eq g zeros_get)
  qed
  have sq: "squares (resetGame s) = map clearSquare (squares s)"
    by (simp add: resetGame_eq)
  have lt: "\<And>l. line_total (resetGame s) l = 0"
    unfolding line_total_def sq by (rule total_cleared)
  have "\<not> hit (resetGame s)"
    using assms(2) by (simp add: hit_iff [OF _ g'] ls)
  moreover have "\<not> gameOver (resetGame s)" "turnCount (resetGame s) = 0"
    "\<not> victoryFlag (resetGame s)"
    by (simp_all add: resetGame_eq)
  moreover have "n * n \<noteq> 0" using assms(2) by simp
  ultimately show ?thesis
    using assms wellformed_resetGame [OF assms(1)] by (simp add: session_inv_def tracked_def ls lt)
qed

lemma refused_frame:
  "line_total (shown (s\<lparr>message := m\<rparr>)) l = line_total s l"
  "line_sum (shown (s\<lparr>message := m\<rparr>)) l = line_sum s l"
  "hit (shown (s\<lparr>message := m\<rparr>)) = hit s"
  "gameOver (shown (s\<lparr>message := m\<rparr>)) = gameOver s"
  "turnCount (shown (s\<lparr>message := m\<rparr>)) = turnCount s"
  "GRID_SIZE (shown (s\<lparr>message := m\<rparr>)) = GRID_SIZE s"
  "victoryFlag (shown (s\<lparr>message := m\<rparr>)) = victoryFlag s"
  by (simp_all add: line_total_def line_sum_def hit_def shown_def)

lemma session_inv_refused: "session_inv n (shown (s\<lparr>message := m\<rparr>)) = session_inv n s"
  unfolding session_inv_def tracked_def refused_frame wellformed_shown wellformed_message by (rule refl)

subsection \<open>The invariant is kept by every move\<close>

lemma coords_in_board:
  assumes "wellformed n s" "k < length (squares s)"
  shows "0 \<le> data_x (squares s ! k) \<and> data_x (squares s ! k) < n \<and>
         0 \<le> data_y (squares s ! k) \<and> data_y (squares s ! k) < n"
proof -
  have m: "map coords (squares s) = board_coords n"
    using assms(1) by (simp add: wellformed_def)
  have "coords (squares s ! k) \<in> set (map coords (squares s))"
    using assms(2) by (metis length_map nth_map nth_mem)
  then have "coords (squares s ! k) \<in> set (board_coords n)"
    by (simp only: m)
  then show ?thesis using board_coords_range [of "coords (squares s ! k)" n]
    by (simp add: coords_def)
qed

lemma turnCount_le:
  assumes "wellformed n s"
  shows "0 \<le> turnCount s \<and> turnCount s \<le> n * n"
proof -
  have "length (map coords (squares s)) = nat n * nat n"
    using assms length_board_coords [of n] by (simp only: wellformed_def)
  then have "length (squares s) = nat n * nat n" by simp
  moreover have "occupied_count s \<le> length (squares s)"
    by (simp add: occupied_count_def)
  ultimately have "occupied_count s \<le> nat n * nat n" by simp
  then have "int (occupied_count s) \<le> int (nat n * nat n)"
    by (simp only: of_nat_le_iff)
  also have "\<dots> \<le> n * n"
    by (cases "0 \<le> n") (simp_all add: zero_le_mult_iff)
  finally show ?thesis using assms by (simp add: wellformed_def)
qed

lemma piece_of_cases: "piece_of e = 1 \<or> piece_of e = - 1"
  by (simp add: piece_of_def PLAYER_ONE_def PLAYER_TWO_def)

lemma tracked_exact: "line_sum s l = Num v \<Longrightarrow> v = line_total s l \<Longrightarrow> tracked s l"
  by (simp add: tracked_def)

lemma tracked_lag:
  "line_sum s l = Num v \<Longrightarrow> is_diagonal l \<Longrightarrow> gameOver s \<Longrightarrow> \<bar>v\<bar> < GRID_SIZE s \<Longrightarrow>
   \<bar>line_total s l - v\<bar> = 1 \<Longrightarrow> tracked s l"
  by (simp add: tracked_def)

lemma session_inv_moved:
  assumes session_inv: "session_inv n s" and leg: "legal e s" and k: "target e = Div k"
  shows "session_inv n (moved e k s)"
proof -
  have n1: "1 \<le> n" and wellformed: "wellformed n s"
    and tr: "\<And>l. is_line n l \<Longrightarrow> tracked s l"
    and go: "gameOver s \<longleftrightarrow> hit s \<or> turnCount s = n * n"
    using session_inv by (simp_all add: session_inv_def)
  have kl: "k < length (squares s)" and empty: "childNodes (squares s ! k) = []"
    and ng: "\<not> gameOver s"
    using leg k by (auto simp: legal_iff)
  define q where "q = squares s ! k"
  define x where "x = data_x q"
  define y where "y = data_y q"
  define p where "p = piece_of e"
  have gs: "GRID_SIZE s = n" using wellformed by (simp add: wellformed_def)
  have xy: "0 \<le> x" "x < n" "0 \<le> y" "y < n"
    using coords_in_board [OF wellformed kl] by (simp_all add: x_def y_def q_def)
  have p1: "\<bar>p\<bar> = 1" using piece_of_cases [of e] by (auto simp: p_def)
  have nohit: "\<not> hit s" using go ng by simp
  have ex: "\<And>l. is_line n l \<Longrightarrow> line_sum s l = Num (line_total s l)"
  proof -
    fix l assume "is_line n l"
    then have "tracked s l" by (rule tr)
    then show "line_sum s l = Num (line_total s l)"
      using ng by (simp add: tracked_def split: jsval.splits)
  qed
  have lt: "\<And>l. is_line n l \<Longrightarrow> \<bar>line_total s l\<bar> < n"
  proof -
    fix l assume l: "is_line n l"
    have "\<bar>line_total s l\<bar> \<le> n" using total_le [OF wellformed l] n1 by simp
    moreover have "\<bar>line_total s l\<bar> \<noteq> n"
    proof
      assume "\<bar>line_total s l\<bar> = n"
      then have "js_abs_is (line_sum s l) n" by (simp add: ex [OF l])
      then have "hit s" using hit_iff [OF _ gs] l n1 by auto
      then show False using nohit by simp
    qed
    ultimately show "\<bar>line_total s l\<bar> < n" by simp
  qed
  define a where "a = line_total s (Column x)"
  define b where "b = line_total s (Row y)"
  define c where "c = line_total s MainDiagonal"
  define d where "d = line_total s AntiDiagonal"
  define sb where "sb = placed e k s"
  define su where "su = updateVictoryConditions x y p sb"
  define s' where "s' = moved e k s"
  define w1 where "w1 \<longleftrightarrow> \<bar>a + p\<bar> = n \<or> \<bar>b + p\<bar> = n"
  define c' where "c' = (if \<not> w1 \<and> x = y then c + p else c)"
  define w2 where "w2 \<longleftrightarrow> (if \<not> w1 \<and> x = y then \<bar>c'\<bar> = n else w1)"
  define d' where "d' = (if \<not> w2 \<and> x + y = n - 1 then d + p else d)"
  define w3 where "w3 \<longleftrightarrow> (if \<not> w2 \<and> x + y = n - 1 then \<bar>d'\<bar> = n else w2)"
  have gb: "GRID_SIZE sb = n" by (simp add: sb_def placed_frame gs)
  have lb: "lineSums sb = lineSums s" by (simp add: sb_def placed_frame)
  have ga: "js_get (lineSums sb) x = Num a"
    using ex [of "Column x"] xy by (simp add: line_sum_def gs lb a_def)
  have gb': "js_get (lineSums sb) (n + y) = Num b"
    using ex [of "Row y"] xy by (simp add: line_sum_def gs lb b_def)
  have gc: "js_get (lineSums sb) (2 * n) = Num c"
    using ex [of MainDiagonal] by (simp add: line_sum_def gs lb c_def)
  have gd: "js_get (lineSums sb) (2 * n + 1) = Num d"
    using ex [of AntiDiagonal] by (simp add: line_sum_def gs lb d_def)
  note u = uvc_sums [OF gb xy ga gb' gc gd, where p = p]
  have u1: "js_get (lineSums su) x = Num (a + p)"
    unfolding su_def by (rule u(1))
  have u2: "js_get (lineSums su) (n + y) = Num (b + p)"
    unfolding su_def by (rule u(2))
  have u3: "js_get (lineSums su) (2 * n) = Num c'"
    unfolding su_def c'_def w1_def by (rule u(3))
  have u4: "js_get (lineSums su) (2 * n + 1) = Num d'"
    unfolding su_def d'_def w2_def c'_def w1_def by (rule u(4))
  have u5: "\<And>i. i \<noteq> x \<Longrightarrow> i \<noteq> n + y \<Longrightarrow> i \<noteq> 2 * n \<Longrightarrow> i \<noteq> 2 * n + 1 \<Longrightarrow>
              js_get (lineSums su) i = js_get (lineSums s) i"
    unfolding su_def using u(5) by (simp add: lb)
  have u6: "victoryFlag su = w3"
    unfolding su_def w3_def d'_def w2_def c'_def w1_def by (rule u(6))
  have s'_eq: "s' = shown (endTurn su)"
    by (simp add: s'_def moved_def su_def sb_def x_def y_def q_def p_def)
  have g': "GRID_SIZE s' = n"
    by (simp add: s'_def moved_frame gs)
  have ls': "lineSums s' = lineSums su"
    by (simp add: s'_eq shown_def endTurn_frame)
  have sq': "squares s' = squares sb"
    by (simp add: s'_def moved_frame sb_def)
  have tc': "turnCount s' = turnCount s + 1"
    by (simp add: s'_def moved_frame)
  have wellformed': "wellformed n s'"
    unfolding s'_def by (rule wellformed_moved [OF wellformed kl empty])
  have go': "gameOver s' = (w3 \<or> n * n \<le> turnCount s + 1)"
  proof -
    have "NUMBER_OF_SQUARES su = n * n" "turnCount su = turnCount s" "\<not> gameOver su"
      using ng wellformed by (simp_all add: su_def uvc_frame sb_def placed_frame wellformed_def)
    moreover have "gameOver s' = gameOver (endTurn su)"
      by (simp add: s'_eq shown_def)
    ultimately show ?thesis
      using u6 by (simp add: endTurn_frame)
  qed
  have tot': "\<And>l. line_total s' l = line_total s l + (if on_line n l q then p else 0)"
  proof -
    fix l
    have "line_total s' l = line_total sb l"
      by (simp add: line_total_def sq' g' gb)
    then show "line_total s' l = line_total s l + (if on_line n l q then p else 0)"
      using total_placed [OF kl empty, of e l] by (simp add: sb_def gs q_def p_def)
  qed
  have w12: "w1 \<Longrightarrow> w2" by (simp add: w2_def)
  have w23: "w2 \<Longrightarrow> w3" by (simp add: w3_def)
  have ne: "x \<noteq> n + y" "x \<noteq> 2 * n" "x \<noteq> 2 * n + 1" "n + y \<noteq> 2 * n" "n + y \<noteq> 2 * n + 1"
    using xy by simp_all
  have over: "w1 \<or> w2 \<Longrightarrow> gameOver s'"
    using w12 w23 go' by blast
  note xs = x_def [symmetric] y_def [symmetric]
  have t_col: "\<And>i. 0 \<le> i \<Longrightarrow> i < n \<Longrightarrow> tracked s' (Column i)"
  proof -
    fix i assume i: "0 \<le> i" "i < n"
    show "tracked s' (Column i)"
    proof (cases "i = x")
      case True
      have "line_sum s' (Column i) = Num (a + p)"
        by (simp add: line_sum_def g' ls' u1 True)
      moreover have "a + p = line_total s' (Column i)"
        by (simp add: tot' xs True a_def)
      ultimately show ?thesis by (rule tracked_exact)
    next
      case False
      have "js_get (lineSums su) i = js_get (lineSums s) i"
        using u5 [of i] i xy False by simp
      then have "line_sum s' (Column i) = Num (line_total s (Column i))"
        using ex [of "Column i"] i by (simp add: line_sum_def g' gs ls')
      moreover have "line_total s (Column i) = line_total s' (Column i)"
        using False by (auto simp: tot' xs)
      ultimately show ?thesis by (rule tracked_exact)
    qed
  qed
  have t_row: "\<And>j. 0 \<le> j \<Longrightarrow> j < n \<Longrightarrow> tracked s' (Row j)"
  proof -
    fix j assume j: "0 \<le> j" "j < n"
    show "tracked s' (Row j)"
    proof (cases "j = y")
      case True
      have "line_sum s' (Row j) = Num (b + p)"
        by (simp add: line_sum_def g' ls' u2 True)
      moreover have "b + p = line_total s' (Row j)"
        by (simp add: tot' xs True b_def)
      ultimately show ?thesis by (rule tracked_exact)
    next
      case False
      have "js_get (lineSums su) (n + j) = js_get (lineSums s) (n + j)"
        using u5 [of "n + j"] j xy False by simp
      then have "line_sum s' (Row j) = Num (line_total s (Row j))"
        using ex [of "Row j"] j by (simp add: line_sum_def g' gs ls')
      moreover have "line_total s (Row j) = line_total s' (Row j)"
        using False by (auto simp: tot' xs)
      ultimately show ?thesis by (rule tracked_exact)
    qed
  qed
  have sm: "line_sum s' MainDiagonal = Num c'"
    by (simp add: line_sum_def g' ls' u3)
  have tm: "line_total s' MainDiagonal = c + (if x = y then p else 0)"
    by (simp add: tot' xs c_def)
  have t_main: "tracked s' MainDiagonal"
  proof (cases "w1 \<and> x = y")
    case False
    then have "c' = line_total s' MainDiagonal"
      by (auto simp: tm c'_def)
    with sm show ?thesis by (rule tracked_exact)
  next
    case True
    have "\<bar>c\<bar> < n" unfolding c_def by (rule lt) simp
    moreover have "c' = c" using True by (simp add: c'_def)
    moreover have "\<bar>line_total s' MainDiagonal - c\<bar> = 1"
      using True p1 by (simp add: tm)
    moreover have "gameOver s'" using True over by simp
    ultimately show ?thesis
      using sm by (intro tracked_lag [where v = c]) (simp_all add: g')
  qed
  have sa: "line_sum s' AntiDiagonal = Num d'"
    by (simp add: line_sum_def g' ls' u4)
  have ta: "line_total s' AntiDiagonal = d + (if x + y = n - 1 then p else 0)"
    by (simp add: tot' xs d_def)
  have t_anti: "tracked s' AntiDiagonal"
  proof (cases "w2 \<and> x + y = n - 1")
    case False
    then have "d' = line_total s' AntiDiagonal"
      by (auto simp: ta d'_def)
    with sa show ?thesis by (rule tracked_exact)
  next
    case True
    have "\<bar>d\<bar> < n" unfolding d_def by (rule lt) simp
    moreover have "d' = d" using True by (simp add: d'_def)
    moreover have "\<bar>line_total s' AntiDiagonal - d\<bar> = 1"
      using True p1 by (simp add: ta)
    moreover have "gameOver s'" using True over by simp
    ultimately show ?thesis
      using sa by (intro tracked_lag [where v = d]) (simp_all add: g')
  qed
  have t_all: "\<And>l. is_line n l \<Longrightarrow> tracked s' l"
  proof -
    fix l assume "is_line n l"
    then show "tracked s' l"
      using t_col t_row t_main t_anti by (cases l) simp_all
  qed
  have old: "\<And>i. 0 \<le> i \<Longrightarrow> i \<le> 2 * n + 1 \<Longrightarrow> \<not> js_abs_is (js_get (lineSums s) i) n"
    using nohit by (auto simp: hit_def gs)
  have cn: "\<bar>c\<bar> \<noteq> n" using old [of "2 * n"] gc n1 by (simp add: lb)
  have dn: "\<bar>d\<bar> \<noteq> n" using old [of "2 * n + 1"] gd n1 by (simp add: lb)
  have hit': "hit s' = w3"
  proof
    assume "hit s'"
    then obtain i where i: "0 \<le> i" "i \<le> 2 * n + 1" "js_abs_is (js_get (lineSums su) i) n"
      by (auto simp: hit_def g' ls')
    consider "i = x" | "i = n + y" | "i = 2 * n" | "i = 2 * n + 1"
      | "i \<noteq> x" "i \<noteq> n + y" "i \<noteq> 2 * n" "i \<noteq> 2 * n + 1"
      by blast
    then show w3
    proof cases
      case 1
      then have w1 using i(3) by (simp add: u1 w1_def)
      then show ?thesis using w12 w23 by blast
    next
      case 2
      then have w1 using i(3) by (simp add: u2 w1_def)
      then show ?thesis using w12 w23 by blast
    next
      case 3
      then have "\<bar>c'\<bar> = n" using i(3) by (simp add: u3)
      then have w2 using cn by (auto simp: w2_def c'_def split: if_splits)
      then show ?thesis using w23 by blast
    next
      case 4
      then have "\<bar>d'\<bar> = n" using i(3) by (simp add: u4)
      then show ?thesis using dn by (auto simp: w3_def d'_def split: if_splits)
    next
      case 5
      then have "js_abs_is (js_get (lineSums s) i) n" using i(3) u5 [of i] by simp
      then show ?thesis using old [OF i(1,2)] by simp
    qed
  next
    assume w: w3
    have r: "\<And>i. 0 \<le> i \<Longrightarrow> i \<le> 2 * n + 1 \<Longrightarrow> js_abs_is (js_get (lineSums su) i) n \<Longrightarrow> hit s'"
      by (auto simp: hit_def g' ls')
    consider (d) "\<bar>d'\<bar> = n" | (c) "\<bar>c'\<bar> = n" | (a) "\<bar>a + p\<bar> = n" | (b) "\<bar>b + p\<bar> = n"
      using w by (auto simp: w3_def w2_def w1_def split: if_splits)
    then show "hit s'"
    proof cases
      case d
      then show ?thesis using r [of "2 * n + 1"] n1 by (simp add: u4)
    next
      case c
      then show ?thesis using r [of "2 * n"] n1 by (simp add: u3)
    next
      case a
      then show ?thesis using r [of x] xy by (simp add: u1)
    next
      case b
      then show ?thesis using r [of "n + y"] xy by (simp add: u2)
    qed
  qed
  have "turnCount s' \<le> n * n" using turnCount_le [OF wellformed'] by simp
  then have "gameOver s' \<longleftrightarrow> hit s' \<or> turnCount s' = n * n"
    using go' hit' tc' by auto
  moreover have "victoryFlag s' = hit s'"
    using u6 hit' by (simp add: s'_eq shown_def endTurn_frame)
  ultimately show ?thesis
    using n1 wellformed' t_all unfolding s'_def by (simp add: session_inv_def)
qed

lemma session_inv_step: "session_inv n s \<Longrightarrow> session_inv n (step a s)"
proof (cases a s rule: step_cases)
  case reset
  assume "session_inv n s"
  then have "wellformed n s" "1 \<le> n" by (simp_all add: session_inv_def)
  then show ?thesis using reset session_inv_resetGame by simp
next
  case same
  assume "session_inv n s"
  then show ?thesis using same by simp
next
  case (refused e m)
  assume "session_inv n s"
  then show ?thesis using refused by (simp add: session_inv_refused)
next
  case (accepted e k)
  assume "session_inv n s"
  then show ?thesis using accepted by (simp add: session_inv_moved)
qed

lemma session_inv_run: "session_inv n s \<Longrightarrow> session_inv n (run acts s)"
  unfolding run_def
proof (induction acts arbitrary: s)
  case Nil
  then show ?case by simp
next
  case (Cons a acts)
  then show ?case by (simp add: session_inv_step)
qed

lemma session_inv_init:
  assumes "initTicTacToe found n dir s0 = Some s1" "\<not> initialized s0" "1 \<le> n"
  shows "session_inv n s1"
  using session_inv_resetGame [OF wellformed_init [OF assms(1,2)] assms(3)]
  by (simp add: reset_init [OF assms(1,2)])

subsection \<open>Consequences used by the claims\<close>

lemma session_inv_holds:
  assumes "initTicTacToe found n dir s0 = Some s1" "\<not> initialized s0" "1 \<le> n"
  shows "session_inv n (run acts s1)"
  by (rule session_inv_run [OF session_inv_init [OF assms]])

lemma wellformed_holds:
  assumes "initTicTacToe found n dir s0 = Some s1" "\<not> initialized s0"
  shows "wellformed n (run acts s1)"
  by (rule wellformed_run [OF wellformed_init [OF assms]])


lemma legal_drop:
  assumes "legal e s" "drop_ev e s = Inr s'"
  obtains k where "target e = Div k" "k < length (squares s)" "childNodes (squares s ! k) = []"
    "dataTransfer e \<in> set (controls s)" "s' = moved e k s"
proof -
  obtain k where k: "target e = Div k" "k < length (squares s)" "childNodes (squares s ! k) = []"
    using assms(1) by (auto simp: legal_iff)
  have c: "dataTransfer e \<in> set (controls s)"
  proof (rule ccontr)
    assume "dataTransfer e \<notin> set (controls s)"
    then have "drop_ev e s = Inl TypeError" by (rule drop_fail [OF assms(1)])
    then show False using assms(2) by simp
  qed
  have "s' = moved e k s"
    using assms(2) by (simp add: drop_accept [OF assms(1) k(1) c] moved_def)
  then show thesis using that k c by blast
qed

lemma moved_outcome:
  "message (moved e k s) =
     (if victoryFlag (moved e k s) then getPlayerName (currentPlayer s) @ '' wins!''
      else if NUMBER_OF_SQUARES s \<le> turnCount s + 1 then ''Tie game... you both lose!''
      else getPlayerName (if currentPlayer s = PLAYER_ONE then PLAYER_TWO else PLAYER_ONE)
             @ '''s turn'')"
  "currentPlayer (moved e k s) =
     (if victoryFlag (moved e k s) \<or> NUMBER_OF_SQUARES s \<le> turnCount s + 1 then currentPlayer s
      else if currentPlayer s = PLAYER_ONE then PLAYER_TWO else PLAYER_ONE)"
  "messageNode (moved e k s) = message (moved e k s)"
  by (simp_all add: moved_def shown_def endTurn_def Let_def uvc_frame placed_def)

lemma uvc_untouched:
  fixes p :: int
  assumes n: "GRID_SIZE s = n" and x: "0 \<le> x" "x < n" and y: "0 \<le> y" "y < n"
  defines "s' \<equiv> updateVictoryConditions x y p s"
  shows "js_abs_is (js_get (lineSums s') x) n \<or> js_abs_is (js_get (lineSums s') (n + y)) n \<Longrightarrow>
           js_get (lineSums s') (2 * n) = js_get (lineSums s) (2 * n) \<and>
           js_get (lineSums s') (2 * n + 1) = js_get (lineSums s) (2 * n + 1)"
    and "\<not> (js_abs_is (js_get (lineSums s') x) n \<or> js_abs_is (js_get (lineSums s') (n + y)) n) \<Longrightarrow>
           x = y \<Longrightarrow> js_abs_is (js_get (lineSums s') (2 * n)) n \<Longrightarrow>
           js_get (lineSums s') (2 * n + 1) = js_get (lineSums s) (2 * n + 1)"
    and "i \<noteq> x \<Longrightarrow> i \<noteq> n + y \<Longrightarrow> (i = 2 * n \<Longrightarrow> x \<noteq> y) \<Longrightarrow> (i = 2 * n + 1 \<Longrightarrow> x + y \<noteq> n - 1) \<Longrightarrow>
           js_get (lineSums s') i = js_get (lineSums s) i"
proof -
  obtain L1 L2 L3 L4 v1 v2 v3 where
    L1: "L1 = js_set (lineSums s) x (js_plus (js_get (lineSums s) x) p)" and
    L2: "L2 = js_set L1 (GRID_SIZE s + y) (js_plus (js_get L1 (GRID_SIZE s + y)) p)" and
    v1: "v1 = (js_abs_is (js_get L2 x) (GRID_SIZE s) \<or>
           js_abs_is (js_get L2 (GRID_SIZE s + y)) (GRID_SIZE s))" and
    L3: "L3 = (if \<not> v1 \<and> x = y
           then js_set L2 (GRID_SIZE s * 2) (js_plus (js_get L2 (GRID_SIZE s * 2)) p) else L2)" and
    v2: "v2 = (if \<not> v1 \<and> x = y then js_abs_is (js_get L3 (GRID_SIZE s * 2)) (GRID_SIZE s) else v1)" and
    L4: "L4 = (if \<not> v2 \<and> \<bar>x - (GRID_SIZE s - 1)\<bar> = y
           then js_set L3 (GRID_SIZE s * 2 + 1) (js_plus (js_get L3 (GRID_SIZE s * 2 + 1)) p)
           else L3)" and
    v3: "v3 = (if \<not> v2 \<and> \<bar>x - (GRID_SIZE s - 1)\<bar> = y
           then js_abs_is (js_get L4 (GRID_SIZE s * 2 + 1)) (GRID_SIZE s) else v2)" and
    e: "updateVictoryConditions x y p s = s\<lparr>lineSums := L4, victoryFlag := v3\<rparr>"
    by (rule uvc_stages)
  have anti: "(\<bar>x - (n - 1)\<bar> = y) = (x + y = n - 1)"
    using x y by linarith
  have ne: "x \<noteq> n + y" "x \<noteq> 2 * n" "x \<noteq> 2 * n + 1" "n + y \<noteq> 2 * n" "n + y \<noteq> 2 * n + 1"
    using x y by simp_all
  have eq: "n * 2 = 2 * n" by simp
  have ls: "lineSums s' = L4" by (simp add: s'_def e)
  have l2: "\<And>i. i \<noteq> x \<Longrightarrow> i \<noteq> n + y \<Longrightarrow> js_get L2 i = js_get (lineSums s) i"
    by (simp add: L2 L1 n)
  have l3: "\<And>i. i \<noteq> 2 * n \<Longrightarrow> js_get L3 i = js_get L2 i"
    by (simp add: L3 n eq)
  have l4: "\<And>i. i \<noteq> 2 * n + 1 \<Longrightarrow> js_get L4 i = js_get L3 i"
    by (simp add: L4 n eq)
  have k3: "v1 \<or> x \<noteq> y \<Longrightarrow> L3 = L2" by (auto simp: L3)
  have k4: "v2 \<or> x + y \<noteq> n - 1 \<Longrightarrow> L4 = L3" by (auto simp: L4 n anti)
  have gx: "js_get L4 x = js_get L2 x" using ne by (simp add: l4 l3)
  have gy: "js_get L4 (n + y) = js_get L2 (n + y)" using ne by (simp add: l4 l3)
  have w1: "v1 = (js_abs_is (js_get (lineSums s') x) n \<or> js_abs_is (js_get (lineSums s') (n + y)) n)"
    by (simp add: v1 n ls gx gy)
  have w12: "v1 \<Longrightarrow> v2" by (simp add: v2)
  show "js_abs_is (js_get (lineSums s') x) n \<or> js_abs_is (js_get (lineSums s') (n + y)) n \<Longrightarrow>
           js_get (lineSums s') (2 * n) = js_get (lineSums s) (2 * n) \<and>
           js_get (lineSums s') (2 * n + 1) = js_get (lineSums s) (2 * n + 1)"
  proof -
    assume "js_abs_is (js_get (lineSums s') x) n \<or> js_abs_is (js_get (lineSums s') (n + y)) n"
    then have v1 by (simp add: w1)
    then have "L4 = L2" using k3 k4 w12 by simp
    then show ?thesis using ne by (simp add: ls l2)
  qed
  show "\<not> (js_abs_is (js_get (lineSums s') x) n \<or> js_abs_is (js_get (lineSums s') (n + y)) n) \<Longrightarrow>
           x = y \<Longrightarrow> js_abs_is (js_get (lineSums s') (2 * n)) n \<Longrightarrow>
           js_get (lineSums s') (2 * n + 1) = js_get (lineSums s) (2 * n + 1)"
  proof -
    assume a: "\<not> (js_abs_is (js_get (lineSums s') x) n \<or> js_abs_is (js_get (lineSums s') (n + y)) n)"
      and b: "x = y" and c: "js_abs_is (js_get (lineSums s') (2 * n)) n"
    have "\<not> v1" using a by (simp add: w1)
    moreover have "js_abs_is (js_get L3 (2 * n)) n" using c by (simp add: ls l4)
    ultimately have v2 using b by (simp add: v2 n eq)
    then have "L4 = L3" using k4 by simp
    then show ?thesis using ne by (simp add: ls l3 l2)
  qed
  show "i \<noteq> x \<Longrightarrow> i \<noteq> n + y \<Longrightarrow> (i = 2 * n \<Longrightarrow> x \<noteq> y) \<Longrightarrow> (i = 2 * n + 1 \<Longrightarrow> x + y \<noteq> n - 1) \<Longrightarrow>
           js_get (lineSums s') i = js_get (lineSums s) i"
  proof -
    assume i: "i \<noteq> x" "i \<noteq> n + y" and m: "i = 2 * n \<Longrightarrow> x \<noteq> y"
      and a: "i = 2 * n + 1 \<Longrightarrow> x + y \<noteq> n - 1"
    have "js_get L3 i = js_get L2 i"
    proof (cases "i = 2 * n")
      case True
      then show ?thesis using k3 m by simp
    next
      case False
      then show ?thesis by (rule l3)
    qed
    moreover have "js_get L4 i = js_get L3 i"
    proof (cases "i = 2 * n + 1")
      case True
      then show ?thesis using k4 a by simp
    next
      case False
      then show ?thesis by (rule l4)
    qed
    ultimately show ?thesis using i by (simp add: ls l2)
  qed
qed

lemma fresh_resetGame:
  assumes "wellformed n s" "0 \<le> n"
  shows "fresh n (resetGame s)"
proof -
  have m: "map coords (squares s) = board_coords n" and g: "GRID_SIZE s = n"
    using assms(1) by (simp_all add: wellformed_def)
  have "length (map coords (squares s)) = nat n * nat n"
    by (simp only: m length_board_coords)
  then have len: "length (squares s) = nat (n * n)"
    using assms(2) by (simp add: nat_mult_distrib)
  have z: "\<forall>i \<in> set [0 .. 2 * n + 1]. js_get (zeros (nat (n * 2 + 2))) i = Num 0"
    using assms(2) by (auto simp: zeros_get)
  show ?thesis
    unfolding fresh_def resetGame_eq
    using len m g z assms(2)
    by (simp add: comp_def coords_clear children_clear occupant_empty zeros_def
        PLAYER_ONE_NAME_def mult.commute)
qed

section \<open>The claims\<close>

lemma new_game_init:
  "initTicTacToe (Some ''board'') n ''images'' loaded = Some (new_game n)"
proof -
  have "\<not> initialized loaded" by (simp add: loaded_def)
  then obtain s1 where "initTicTacToe (Some ''board'') n ''images'' loaded = Some s1"
    using init_returns by blast
  then show ?thesis by (simp add: new_game_def)
qed

lemma loaded_uninitialized: "\<not> initialized loaded"
  by (simp add: loaded_def)

text \<open>
  In a session the lookup of a piece's id always finds the piece image: on drops of the
  two pieces the branch of \<open>getElementById\<close> that departs from the page is never taken.
\<close>

lemma piece_lookup_found:
  assumes "wellformed n s" "piece_drop (Drop e)"
  shows "getElementById s (dataTransfer e) = Some (dataTransfer e)"
  using assms by (auto simp: wellformed_def getElementById_def)

subsection \<open>C1: line sums and full lines\<close>




subsection \<open>C2: when the game is over\<close>

text \<open>
  C2. In every state of a session on a grid of size \<open>N \<ge> 1\<close>, \<open>gameOver\<close> holds exactly
  when some line sum is at \<open>+N\<close> or \<open>-N\<close>, or \<open>turnCount\<close> is \<open>N\<^sup>2\<close> with no line sum there.
  An accepted move that brings a line sum to \<open>+N\<close> or \<open>-N\<close> ends the game with the message
  that the mover wins (and it stays the mover's turn); one that fills the board without
  that ends it with the tie message; any other accepted move leaves the game running.
\<close>

theorem gameOver_iff_victory_or_draw:
  assumes "initTicTacToe found n dir s0 = Some s1" "\<not> initialized s0" "1 \<le> n"
    and "s = run acts s1"
  shows "(gameOver s \<longleftrightarrow> hit s \<or> (turnCount s = n * n \<and> \<not> hit s)) \<and>
         (legal e s \<and> drop_ev e s = Inr s' \<longrightarrow>
            (hit s' \<longrightarrow> gameOver s' \<and> currentPlayer s' = piece_of e \<and>
                       message s' = getPlayerName (piece_of e) @ '' wins!'') \<and>
            (\<not> hit s' \<and> turnCount s' = n * n \<longrightarrow>
                       gameOver s' \<and> message s' = ''Tie game... you both lose!'') \<and>
            (\<not> hit s' \<and> turnCount s' \<noteq> n * n \<longrightarrow> \<not> gameOver s'))"
proof -
  have i: "session_inv n s" unfolding assms(4) by (rule session_inv_holds [OF assms(1-3)])
  have first: "gameOver s \<longleftrightarrow> hit s \<or> (turnCount s = n * n \<and> \<not> hit s)"
    using i by (auto simp: session_inv_def)
  have second: "(hit s' \<longrightarrow> gameOver s' \<and> currentPlayer s' = piece_of e \<and>
                       message s' = getPlayerName (piece_of e) @ '' wins!'') \<and>
            (\<not> hit s' \<and> turnCount s' = n * n \<longrightarrow>
                       gameOver s' \<and> message s' = ''Tie game... you both lose!'') \<and>
            (\<not> hit s' \<and> turnCount s' \<noteq> n * n \<longrightarrow> \<not> gameOver s')"
    if leg: "legal e s" and d: "drop_ev e s = Inr s'"
  proof -
    obtain k where k: "target e = Div k" and s': "s' = moved e k s"
      using leg d by (rule legal_drop)
    have i': "session_inv n s'" unfolding s' by (rule session_inv_moved [OF i leg k])
    have v: "victoryFlag s' = hit s'" and g: "gameOver s' \<longleftrightarrow> hit s' \<or> turnCount s' = n * n"
      using i' by (simp_all add: session_inv_def)
    have p: "piece_of e = currentPlayer s" using leg by (auto simp: legal_iff)
    have ns: "NUMBER_OF_SQUARES s = n * n" using i by (simp add: session_inv_def wellformed_def)
    have tc: "turnCount s' = turnCount s + 1" by (simp add: s' moved_frame)
    have le: "turnCount s' \<le> n * n" using i' turnCount_le [of n s'] by (simp add: session_inv_def)
    have full: "(NUMBER_OF_SQUARES s \<le> turnCount s + 1) = (turnCount s' = n * n)"
      using le tc ns by auto
    have m: "message s' =
        (if hit s' then getPlayerName (piece_of e) @ '' wins!''
         else if turnCount s' = n * n then ''Tie game... you both lose!''
         else getPlayerName (if currentPlayer s = PLAYER_ONE then PLAYER_TWO else PLAYER_ONE)
                @ '''s turn'')"
      using moved_outcome(1) [of e k s] by (simp add: s' [symmetric] v full p)
    have c: "hit s' \<longrightarrow> currentPlayer s' = piece_of e"
      using moved_outcome(2) [of e k s] by (simp add: s' [symmetric] v p)
    show ?thesis using g m c by simp
  qed
  show ?thesis using first second by blast
qed

text \<open>Witness: the last move of \<open>diagonal_game\<close> wins, the last move of \<open>drawn_game\<close>
  draws, and before that move the drawn game is still running.\<close>

theorem gameOver_iff_victory_or_draw_witness:
  "initTicTacToe (Some ''board'') 3 ''images'' loaded = Some (new_game 3) \<and>
   \<not> initialized loaded \<and> (1::int) \<le> 3 \<and>
   legal \<lparr>dataTransfer = ''player-1'', target = Div 0\<rparr> (run (butlast diagonal_game) (new_game 3)) \<and>
   drop_ev \<lparr>dataTransfer = ''player-1'', target = Div 0\<rparr> (run (butlast diagonal_game) (new_game 3))
     = Inr (run diagonal_game (new_game 3)) \<and>
   hit (run diagonal_game (new_game 3)) \<and>
   gameOver (run diagonal_game (new_game 3)) \<and>
   message (run diagonal_game (new_game 3)) = ''Player 1 wins!'' \<and>
   legal \<lparr>dataTransfer = ''player-1'', target = Div 8\<rparr> (run (butlast drawn_game) (new_game 3)) \<and>
   drop_ev \<lparr>dataTransfer = ''player-1'', target = Div 8\<rparr> (run (butlast drawn_game) (new_game 3))
     = Inr (run drawn_game (new_game 3)) \<and>
   \<not> hit (run drawn_game (new_game 3)) \<and>
   turnCount (run drawn_game (new_game 3)) = 3 * 3 \<and>
   gameOver (run drawn_game (new_game 3)) \<and>
   message (run drawn_game (new_game 3)) = ''Tie game... you both lose!'' \<and>
   \<not> gameOver (run (butlast drawn_game) (new_game 3))"
proof -
  define e1 where "e1 = \<lparr>dataTransfer = ''player-1'', target = Div 0\<rparr>"
  define e2 where "e2 = \<lparr>dataTransfer = ''player-1'', target = Div 8\<rparr>"
  define a where "a = run (butlast diagonal_game) (new_game 3)"
  define b where "b = run (butlast drawn_game) (new_game 3)"
  have ra: "run diagonal_game (new_game 3) = step (Drop e1) a"
    by (simp add: a_def e1_def diagonal_game_def run_def put_def)
  have rb: "run drawn_game (new_game 3) = step (Drop e2) b"
    by (simp add: b_def e2_def drawn_game_def run_def put_def)
  have la: "legal e1 a" unfolding e1_def a_def by code_simp
  have lb: "legal e2 b" unfolding e2_def b_def by code_simp
  have ca: "dataTransfer e1 \<in> set (controls a)" unfolding e1_def a_def by code_simp
  have cb: "dataTransfer e2 \<in> set (controls b)" unfolding e2_def b_def by code_simp
  have da: "drop_ev e1 a = Inr (run diagonal_game (new_game 3))"
    using drop_accept [OF la _ ca, of 0] by (simp add: ra e1_def)
  have db: "drop_ev e2 b = Inr (run drawn_game (new_game 3))"
    using drop_accept [OF lb _ cb, of 8] by (simp add: rb e2_def)
  have ha: "hit (run diagonal_game (new_game 3))" by code_simp
  have hb: "\<not> hit (run drawn_game (new_game 3))" by code_simp
  have tb: "turnCount (run drawn_game (new_game 3)) = 3 * 3" by code_simp
  have tb': "turnCount b \<noteq> 3 * 3 \<and> \<not> hit b" unfolding b_def by code_simp
  have p1: "getPlayerName (piece_of e1) @ '' wins!'' = ''Player 1 wins!''"
    by (simp add: e1_def piece_of_def getPlayerName_def PLAYER_ONE_NAME_def)
  note w = gameOver_iff_victory_or_draw [OF new_game_init loaded_uninitialized]
  have "gameOver (run diagonal_game (new_game 3)) \<and>
        message (run diagonal_game (new_game 3)) = ''Player 1 wins!''"
    using w [of 3 a "butlast diagonal_game" e1 "run diagonal_game (new_game 3)"] la da ha
    by (simp add: a_def p1)
  moreover have "gameOver (run drawn_game (new_game 3)) \<and>
        message (run drawn_game (new_game 3)) = ''Tie game... you both lose!''"
    using w [of 3 b "butlast drawn_game" e2 "run drawn_game (new_game 3)"] lb db hb tb
    by (simp add: b_def)
  moreover have "\<not> gameOver b"
    using w [of 3 b "butlast drawn_game" e2 "run drawn_game (new_game 3)"] tb'
    by (simp add: b_def)
  ultimately show ?thesis
    using new_game_init loaded_uninitialized la lb da db ha hb tb
    by (simp add: a_def b_def e1_def e2_def)
qed

subsection \<open>C3: a rejected move changes nothing but the message\<close>

text \<open>
  C3. In any state, a drop that is rejected (the game is over, or it is the other
  player's turn, or the target is occupied) returns normally with the state it found,
  but for the message and its display: the squares, the line sums, the current player,
  the turn count and the flags are unchanged.
\<close>

theorem rejected_drop_keeps_state:
  assumes "resolve s (target e) = Some object"
    and "gameOver s \<or> piece_of e \<noteq> currentPlayer s \<or> isOccupied object"
  shows "\<exists>s'. drop_ev e s = Inr s' \<and>
           s' = s\<lparr>message := refusal e s, messageNode := refusal e s\<rparr> \<and>
           squares s' = squares s \<and> lineSums s' = lineSums s \<and>
           currentPlayer s' = currentPlayer s \<and> turnCount s' = turnCount s \<and>
           gameOver s' = gameOver s \<and> victoryFlag s' = victoryFlag s"
proof -
  have "\<not> legal e s" using assms by (simp add: legal_def)
  then have "drop_ev e s = Inr (shown (s\<lparr>message := refusal e s\<rparr>))"
    using assms(1) by (rule drop_ev_illegal)
  then show ?thesis by (simp add: shown_def)
qed

text \<open>Witness: Player 2 drops on the square Player 1 has just taken.\<close>

theorem rejected_drop_keeps_state_witness:
  "resolve (run [put ''player-1'' 4] (new_game 3)) (Div 4)
     = Some (SquareEl (squares (run [put ''player-1'' 4] (new_game 3)) ! 4)) \<and>
   isOccupied (SquareEl (squares (run [put ''player-1'' 4] (new_game 3)) ! 4)) \<and>
   drop_ev \<lparr>dataTransfer = ''player-2'', target = Div 4\<rparr> (run [put ''player-1'' 4] (new_game 3))
     = Inr ((run [put ''player-1'' 4] (new_game 3))
              \<lparr>message := ''That spot is already taken!'',
               messageNode := ''That spot is already taken!''\<rparr>)"
proof -
  define s where "s = run [put ''player-1'' 4] (new_game 3)"
  define e where "e = \<lparr>dataTransfer = ''player-2'', target = Div 4\<rparr>"
  have len: "4 < length (squares s)" unfolding s_def by code_simp
  have r: "resolve s (target e) = Some (SquareEl (squares s ! 4))"
    using len by (simp add: e_def)
  have o: "isOccupied (SquareEl (squares s ! 4))" unfolding s_def by code_simp
  have m: "refusal e s = ''That spot is already taken!''"
    unfolding s_def e_def by code_simp
  have "drop_ev e s = Inr (s\<lparr>message := ''That spot is already taken!'',
               messageNode := ''That spot is already taken!''\<rparr>)"
    using rejected_drop_keeps_state [OF r, of ] o by (simp add: m)
  then show ?thesis using r o by (simp add: s_def e_def)
qed

subsection \<open>C4: the order of the checks\<close>

text \<open>
  C4. For a drop on the board: if the game is over the message is that the game is
  already over, whichever player drops; otherwise, if the piece is not the current
  player's, the message names the player whose turn it is; otherwise, if the target is
  occupied, the message is that the spot is taken; otherwise the move is accepted (the
  dragged text being the id of one of the two piece images).
\<close>

theorem rejection_precedence:
  assumes "resolve s (target e) = Some object"
  shows "(gameOver s \<longrightarrow>
            drop_ev e s = Inr (shown (s\<lparr>message := ''The game is already over!''\<rparr>))) \<and>
         (\<not> gameOver s \<and> piece_of e \<noteq> currentPlayer s \<longrightarrow>
            drop_ev e s = Inr (shown (s\<lparr>message :=
              ''HEY! LISTEN! It's '' @ getPlayerName (currentPlayer s) @ '''s turn!''\<rparr>))) \<and>
         (\<not> gameOver s \<and> piece_of e = currentPlayer s \<and> isOccupied object \<longrightarrow>
            drop_ev e s = Inr (shown (s\<lparr>message := ''That spot is already taken!''\<rparr>))) \<and>
         (\<not> gameOver s \<and> piece_of e = currentPlayer s \<and> \<not> isOccupied object \<and>
          dataTransfer e \<in> set (controls s) \<longrightarrow>
            (\<exists>k. target e = Div k \<and> drop_ev e s = Inr (moved e k s)))"
proof -
  have rej: "drop_ev e s = Inr (shown (s\<lparr>message := refusal e s\<rparr>))"
    if "gameOver s \<or> piece_of e \<noteq> currentPlayer s \<or> isOccupied object"
  proof -
    have "\<not> legal e s" using that assms by (simp add: legal_def)
    then show ?thesis using assms by (rule drop_ev_illegal)
  qed
  have acc: "\<exists>k. target e = Div k \<and> drop_ev e s = Inr (moved e k s)"
    if "\<not> gameOver s" "piece_of e = currentPlayer s" "\<not> isOccupied object"
      "dataTransfer e \<in> set (controls s)"
  proof -
    have l: "legal e s" using that assms by (simp add: legal_def)
    then obtain k where k: "target e = Div k" by (auto simp: legal_iff)
    have "drop_ev e s = Inr (moved e k s)"
      using drop_accept [OF l k that(4)] by (simp add: moved_def)
    then show ?thesis using k by blast
  qed
  show ?thesis using rej acc by (auto simp: refusal_def)
qed

text \<open>Witness: one drop for each of the four cases.\<close>

theorem rejection_precedence_witness:
  "drop_ev \<lparr>dataTransfer = ''player-2'', target = Div 5\<rparr> (run diagonal_game (new_game 3))
     = Inr (shown ((run diagonal_game (new_game 3))\<lparr>message := ''The game is already over!''\<rparr>)) \<and>
   drop_ev \<lparr>dataTransfer = ''player-2'', target = Div 4\<rparr> (new_game 3)
     = Inr (shown ((new_game 3)\<lparr>message := ''HEY! LISTEN! It's Player 1's turn!''\<rparr>)) \<and>
   drop_ev \<lparr>dataTransfer = ''player-2'', target = Img 4\<rparr> (run [put ''player-1'' 4] (new_game 3))
     = Inr (shown ((run [put ''player-1'' 4] (new_game 3))
                     \<lparr>message := ''That spot is already taken!''\<rparr>)) \<and>
   drop_ev \<lparr>dataTransfer = ''player-1'', target = Div 4\<rparr> (new_game 3)
     = Inr (moved \<lparr>dataTransfer = ''player-1'', target = Div 4\<rparr> 4 (new_game 3))"
proof -
  define a where "a = run diagonal_game (new_game 3)"
  define b where "b = run [put ''player-1'' 4] (new_game 3)"
  define e1 where "e1 = \<lparr>dataTransfer = ''player-2'', target = Div 5\<rparr>"
  define e2 where "e2 = \<lparr>dataTransfer = ''player-2'', target = Div 4\<rparr>"
  define e3 where "e3 = \<lparr>dataTransfer = ''player-2'', target = Img 4\<rparr>"
  define e4 where "e4 = \<lparr>dataTransfer = ''player-1'', target = Div 4\<rparr>"
  have ra: "resolve a (target e1) = Some (SquareEl (squares a ! 5))"
  proof -
    have "5 < length (squares a)" unfolding a_def by code_simp
    then show ?thesis by (simp add: e1_def)
  qed
  have rn: "resolve (new_game 3) (Div 4) = Some (SquareEl (squares (new_game 3) ! 4))"
  proof -
    have "4 < length (squares (new_game 3))" by code_simp
    then show ?thesis by simp
  qed
  have rb: "resolve b (target e3) = Some ImgEl"
  proof -
    have "4 < length (squares b) \<and> childNodes (squares b ! 4) \<noteq> []"
      unfolding b_def by code_simp
    then show ?thesis by (simp add: e3_def)
  qed
  have ga: "gameOver a" unfolding a_def by code_simp
  have gn: "\<not> gameOver (new_game 3)" by code_simp
  have gb: "\<not> gameOver b" unfolding b_def by code_simp
  have p2: "piece_of e2 \<noteq> currentPlayer (new_game 3)" unfolding e2_def by code_simp
  have p3: "piece_of e3 = currentPlayer b" unfolding e3_def b_def by code_simp
  have p4: "piece_of e4 = currentPlayer (new_game 3)" unfolding e4_def by code_simp
  have o4: "\<not> isOccupied (SquareEl (squares (new_game 3) ! 4))" by code_simp
  have c4: "dataTransfer e4 \<in> set (controls (new_game 3))" unfolding e4_def by code_simp
  have nm: "getPlayerName (currentPlayer (new_game 3)) = ''Player 1''" by code_simp
  have "drop_ev e1 a = Inr (shown (a\<lparr>message := ''The game is already over!''\<rparr>))"
    using rejection_precedence [OF ra] ga by simp
  moreover have "drop_ev e2 (new_game 3)
       = Inr (shown ((new_game 3)\<lparr>message := ''HEY! LISTEN! It's Player 1's turn!''\<rparr>))"
    using rejection_precedence [of "new_game 3" e2] rn gn p2 by (simp add: e2_def nm)
  moreover have "drop_ev e3 b = Inr (shown (b\<lparr>message := ''That spot is already taken!''\<rparr>))"
    using rejection_precedence [OF rb] gb p3 by (simp add: isOccupied_def)
  moreover have "drop_ev e4 (new_game 3) = Inr (moved e4 4 (new_game 3))"
    using rejection_precedence [of "new_game 3" e4] rn gn p4 o4 c4 by (simp add: e4_def)
  ultimately show ?thesis
    by (simp add: a_def b_def e1_def e2_def e3_def e4_def)
qed

subsection \<open>C5: the start state\<close>

text \<open>
  C5. For every grid size \<open>N \<ge> 1\<close>, the state after initialisation, and the state after a
  reset at any point of a session, has \<open>turnCount = 0\<close>, Player 1 to move, \<open>gameOver\<close>
  false, an empty \<open>N\<close> by \<open>N\<close> board, a line-sum table of length \<open>2N + 2\<close> filled with
  zeros, and the message "Player 1 starts the game", made from Player 1's display name.
\<close>

theorem fresh_after_init_and_reset:
  assumes "initTicTacToe found n dir s0 = Some s1" "\<not> initialized s0" "1 \<le> n"
  shows "fresh n s1 \<and> fresh n (resetGame (run acts s1))"
proof -
  have n0: "0 \<le> n" using assms(3) by simp
  have "fresh n (resetGame s1)"
    using fresh_resetGame [OF wellformed_init [OF assms(1,2)] n0] .
  then have "fresh n s1" by (simp add: reset_init [OF assms(1,2)])
  moreover have "fresh n (resetGame (run acts s1))"
    using fresh_resetGame [OF wellformed_holds [OF assms(1,2)] n0] .
  ultimately show ?thesis by simp
qed

text \<open>Witness: a new 3 by 3 game, and a reset after \<open>diagonal_game\<close>.\<close>

theorem fresh_after_init_and_reset_witness:
  "initTicTacToe (Some ''board'') 3 ''images'' loaded = Some (new_game 3) \<and>
   \<not> initialized loaded \<and> (1::int) \<le> 3 \<and>
   fresh 3 (new_game 3) \<and> fresh 3 (resetGame (run diagonal_game (new_game 3))) \<and>
   turnCount (resetGame (run diagonal_game (new_game 3))) = 0 \<and>
   message (new_game 3) = ''Player 1 starts the game''"
proof -
  have "fresh 3 (new_game 3) \<and> fresh 3 (resetGame (run diagonal_game (new_game 3)))"
    using fresh_after_init_and_reset [OF new_game_init loaded_uninitialized, of 3 diagonal_game]
    by simp
  then show ?thesis
    using new_game_init loaded_uninitialized by (simp add: fresh_def PLAYER_ONE_NAME_def)
qed

subsection \<open>C6: reset is idempotent\<close>

text \<open>
  C6. \<open>resetGame\<close> is defined on every state; resetting twice gives the state that
  resetting once gives, and the grid size is kept.
\<close>

theorem resetGame_idempotent:
  "resetGame (resetGame s) = resetGame s \<and> GRID_SIZE (resetGame s) = GRID_SIZE s"
  by (simp add: resetGame_eq clearSquare_eq comp_def)

text \<open>An instance: resetting the finished \<open>diagonal_game\<close>.\<close>

theorem resetGame_idempotent_witness:
  "resetGame (resetGame (run diagonal_game (new_game 3))) = resetGame (run diagonal_game (new_game 3)) \<and>
   GRID_SIZE (resetGame (run diagonal_game (new_game 3))) = 3"
proof -
  have "GRID_SIZE (run diagonal_game (new_game 3)) = 3" by code_simp
  then show ?thesis
    using resetGame_idempotent [of "run diagonal_game (new_game 3)"] by simp
qed

subsection \<open>C7: the turn count\<close>



subsection \<open>C8: grid sizes below 1\<close>

text \<open>
  C8 as stated fails: \<open>initTicTacToe\<close> has no check of the grid size. With grid size 0 it
  returns an initialised game.
\<close>

theorem init_accepts_zero_grid:
  "initTicTacToe (Some ''board'') 0 ''images'' loaded \<noteq> None \<and>
   initialized (the (initTicTacToe (Some ''board'') 0 ''images'' loaded)) \<and>
   GRID_SIZE (the (initTicTacToe (Some ''board'') 0 ''images'' loaded)) = 0 \<and>
   \<not> gameOver (the (initTicTacToe (Some ''board'') 0 ''images'' loaded))"
  by code_simp

text \<open>
  C8, amended. For a grid size below 1 (and the container present) \<open>initTicTacToe\<close>
  returns an initialised game of that size with no squares, no turn taken, Player 1 to
  move and \<open>gameOver\<close> false; no drop event changes it.
\<close>

theorem init_does_not_validate_gridSize:
  assumes "gridSize < 1" "\<not> initialized s0"
  shows "\<exists>s1. initTicTacToe (Some el) gridSize dir s0 = Some s1 \<and>
           initialized s1 \<and> GRID_SIZE s1 = gridSize \<and> squares s1 = [] \<and>
           turnCount s1 = 0 \<and> currentPlayer s1 = PLAYER_ONE \<and> \<not> gameOver s1 \<and>
           (\<forall>e. drop_ev e s1 = Inr s1)"
proof -
  obtain s1 where s1: "initTicTacToe (Some el) gridSize dir s0 = Some s1"
    using init_returns [OF assms(2)] by blast
  obtain c where e:
    "s1 = s0\<lparr>initialized := True, GRID_SIZE := gridSize, NUMBER_OF_SQUARES := gridSize * gridSize,
               IMAGE_DIR := dir, container := Some c,
               controls := [''player-1'', ''player-2''], squares := board gridSize,
               lineSums := zeros (nat (gridSize * 2 + 2)),
               message := ''Player 1 starts the game'',
               messageNode := ''Player 1 starts the game'',
               gameOver := False, victoryFlag := False,
               currentPlayer := PLAYER_ONE, turnCount := 0\<rparr>"
    using s1 assms(2) by (rule init_Some)
  have b: "board gridSize = []" using assms(1) by (simp add: board_def)
  have sq: "squares s1 = []" by (simp add: e b)
  have "\<And>ev. drop_ev ev s1 = Inr s1"
  proof -
    fix ev :: event
    have "resolve s1 (target ev) = None" by (cases "target ev") (simp_all add: sq)
    then show "drop_ev ev s1 = Inr s1" by (rule drop_ev_unresolved)
  qed
  moreover have "initialized s1 \<and> GRID_SIZE s1 = gridSize \<and>
           turnCount s1 = 0 \<and> currentPlayer s1 = PLAYER_ONE \<and> \<not> gameOver s1"
    by (simp add: e)
  ultimately show ?thesis using s1 sq by blast
qed

text \<open>Witness: grid size \<open>-2\<close>.\<close>

theorem init_does_not_validate_gridSize_witness:
  "(- 2 :: int) < 1 \<and> \<not> initialized loaded \<and>
   initTicTacToe (Some ''board'') (- 2) ''images'' loaded = Some (new_game (- 2)) \<and>
   initialized (new_game (- 2)) \<and> squares (new_game (- 2)) = []"
proof -
  obtain s1 where s1: "initTicTacToe (Some ''board'') (- 2) ''images'' loaded = Some s1"
    and p: "initialized s1" "squares s1 = []"
    using init_does_not_validate_gridSize [of "- 2" loaded "''board''" "''images''"]
      loaded_uninitialized
    by auto
  have "s1 = new_game (- 2)" using s1 by (simp add: new_game_def)
  then show ?thesis using s1 p loaded_uninitialized by simp
qed

subsection \<open>C9: coordinates outside the grid\<close>

text \<open>
  C9 as stated fails: there is no coordinate check and no error for a coordinate. In
  \<open>stray\<close>, square 0 of a 3 by 3 game carries \<open>data-x = 3\<close>; a drop on it is accepted, the
  turn is counted, and entry 3 of the line sums (row 0) is raised twice.
\<close>

theorem stray_coordinate_accepted:
  "GRID_SIZE stray = 3 \<and> data_x (squares stray ! 0) = 3 \<and>
   drop_ev \<lparr>dataTransfer = ''player-1'', target = Div 0\<rparr> stray
     = Inr (step (Drop \<lparr>dataTransfer = ''player-1'', target = Div 0\<rparr>) stray) \<and>
   turnCount stray = 0 \<and>
   turnCount (step (Drop \<lparr>dataTransfer = ''player-1'', target = Div 0\<rparr>) stray) = 1 \<and>
   js_get (lineSums stray) 3 = Num 0 \<and>
   js_get (lineSums (step (Drop \<lparr>dataTransfer = ''player-1'', target = Div 0\<rparr>) stray)) 3 = Num 2"
proof -
  have "\<not> isl (drop_ev \<lparr>dataTransfer = ''player-1'', target = Div 0\<rparr> stray)"
    by code_simp
  then have "drop_ev \<lparr>dataTransfer = ''player-1'', target = Div 0\<rparr> stray
     = Inr (step (Drop \<lparr>dataTransfer = ''player-1'', target = Div 0\<rparr>) stray)"
    by (cases "drop_ev \<lparr>dataTransfer = ''player-1'', target = Div 0\<rparr> stray") simp_all
  moreover have "GRID_SIZE stray = 3 \<and> data_x (squares stray ! 0) = 3 \<and>
   turnCount stray = 0 \<and>
   turnCount (step (Drop \<lparr>dataTransfer = ''player-1'', target = Div 0\<rparr>) stray) = 1 \<and>
   js_get (lineSums stray) 3 = Num 0 \<and>
   js_get (lineSums (step (Drop \<lparr>dataTransfer = ''player-1'', target = Div 0\<rparr>) stray)) 3 = Num 2"
    by code_simp
  ultimately show ?thesis by simp
qed

text \<open>
  C9, amended. The coordinates of a move are those of its target square, which
  \<open>createGameBoard\<close> sets inside the grid and nothing changes: at every point of a session
  every square has \<open>0 \<le> x < N\<close> and \<open>0 \<le> y < N\<close>.
\<close>

theorem session_coordinates_in_range:
  assumes "initTicTacToe found n dir s0 = Some s1" "\<not> initialized s0"
    and "s = run acts s1" and "q \<in> set (squares s)"
  shows "0 \<le> data_x q \<and> data_x q < n \<and> 0 \<le> data_y q \<and> data_y q < n"
proof -
  have w: "wellformed n s" unfolding assms(3) by (rule wellformed_holds [OF assms(1,2)])
  obtain k where k: "k < length (squares s)" "q = squares s ! k"
    using assms(4) by (auto simp: in_set_conv_nth)
  show ?thesis using coords_in_board [OF w k(1)] by (simp add: k(2))
qed

text \<open>Witness: square 5 after \<open>diagonal_game\<close>.\<close>

theorem session_coordinates_in_range_witness:
  "initTicTacToe (Some ''board'') 3 ''images'' loaded = Some (new_game 3) \<and>
   \<not> initialized loaded \<and>
   squares (run diagonal_game (new_game 3)) ! 5 \<in> set (squares (run diagonal_game (new_game 3))) \<and>
   data_x (squares (run diagonal_game (new_game 3)) ! 5) = 2 \<and>
   data_y (squares (run diagonal_game (new_game 3)) ! 5) < 3"
proof -
  have len: "5 < length (squares (run diagonal_game (new_game 3)))" by code_simp
  then have m: "squares (run diagonal_game (new_game 3)) ! 5
                  \<in> set (squares (run diagonal_game (new_game 3)))"
    by (rule nth_mem)
  have x: "data_x (squares (run diagonal_game (new_game 3)) ! 5) = 2" by code_simp
  have "data_y (squares (run diagonal_game (new_game 3)) ! 5) < 3"
    using session_coordinates_in_range [OF new_game_init loaded_uninitialized refl m] by simp
  then show ?thesis using new_game_init loaded_uninitialized m x by simp
qed

subsection \<open>C10: which sums a move touches\<close>

text \<open>
  C10. On an accepted move at \<open>(x, y)\<close> inside the grid: if the sum of column \<open>x\<close> or of
  row \<open>y\<close> reaches absolute value \<open>N\<close>, neither diagonal sum changes, wherever the square
  lies; if not, and the square is on the main diagonal whose sum reaches absolute value
  \<open>N\<close>, the anti-diagonal sum does not change; and every entry other than those of column
  \<open>x\<close>, row \<open>y\<close> and the diagonals through \<open>(x, y)\<close> is unchanged.
\<close>

theorem diagonal_updates_skipped:
  assumes "legal e s" "target e = Div k" "drop_ev e s = Inr s'"
    and "n = GRID_SIZE s" "x = data_x (squares s ! k)" "y = data_y (squares s ! k)"
    and "0 \<le> x" "x < n" "0 \<le> y" "y < n"
  shows "(js_abs_is (line_sum s' (Column x)) n \<or> js_abs_is (line_sum s' (Row y)) n \<longrightarrow>
            line_sum s' MainDiagonal = line_sum s MainDiagonal \<and>
            line_sum s' AntiDiagonal = line_sum s AntiDiagonal) \<and>
         (\<not> (js_abs_is (line_sum s' (Column x)) n \<or> js_abs_is (line_sum s' (Row y)) n) \<and>
          x = y \<and> js_abs_is (line_sum s' MainDiagonal) n \<longrightarrow>
            line_sum s' AntiDiagonal = line_sum s AntiDiagonal) \<and>
         (\<forall>i. i \<noteq> x \<and> i \<noteq> n + y \<and> (i = 2 * n \<longrightarrow> x \<noteq> y) \<and> (i = 2 * n + 1 \<longrightarrow> x + y \<noteq> n - 1) \<longrightarrow>
            js_get (lineSums s') i = js_get (lineSums s) i)"
proof -
  obtain k' where k': "target e = Div k'" and s': "s' = moved e k' s"
    using assms(1,3) by (rule legal_drop)
  have kk: "k' = k" using k' assms(2) by simp
  define sb where "sb = placed e k s"
  define su where "su = updateVictoryConditions x y (piece_of e) sb"
  have gb: "GRID_SIZE sb = n" and lb: "lineSums sb = lineSums s"
    by (simp_all add: sb_def placed_frame assms(4))
  have ls: "lineSums s' = lineSums su"
    by (simp add: s' kk moved_def shown_def endTurn_frame su_def sb_def assms(5,6))
  have g': "GRID_SIZE s' = n"
    by (simp add: s' moved_frame assms(4))
  note u = uvc_untouched [OF gb assms(7-10), where p = "piece_of e", folded su_def, unfolded lb]
  have 1: "js_abs_is (line_sum s' (Column x)) n \<or> js_abs_is (line_sum s' (Row y)) n \<longrightarrow>
            line_sum s' MainDiagonal = line_sum s MainDiagonal \<and>
            line_sum s' AntiDiagonal = line_sum s AntiDiagonal"
    using u(1) by (simp add: line_sum_def g' ls assms(4) [symmetric])
  have "\<not> (js_abs_is (js_get (lineSums su) x) n \<or> js_abs_is (js_get (lineSums su) (n + y)) n) \<and>
          x = y \<and> js_abs_is (js_get (lineSums su) (2 * n)) n \<longrightarrow>
            js_get (lineSums su) (2 * n + 1) = js_get (lineSums s) (2 * n + 1)"
    using u(2) by blast
  then have 2: "\<not> (js_abs_is (line_sum s' (Column x)) n \<or> js_abs_is (line_sum s' (Row y)) n) \<and>
          x = y \<and> js_abs_is (line_sum s' MainDiagonal) n \<longrightarrow>
            line_sum s' AntiDiagonal = line_sum s AntiDiagonal"
    by (simp add: line_sum_def g' ls assms(4) [symmetric])
  have 3: "\<forall>i. i \<noteq> x \<and> i \<noteq> n + y \<and> (i = 2 * n \<longrightarrow> x \<noteq> y) \<and> (i = 2 * n + 1 \<longrightarrow> x + y \<noteq> n - 1) \<longrightarrow>
            js_get (lineSums s') i = js_get (lineSums s) i"
    using u(3) by (simp add: ls)
  show ?thesis using 1 2 3 by blast
qed

text \<open>Witness: the last move of \<open>diagonal_game\<close>, at (0,0), completes row 0; the main
  diagonal stays at 2.\<close>

theorem diagonal_updates_skipped_witness:
  "legal \<lparr>dataTransfer = ''player-1'', target = Div 0\<rparr> (run (butlast diagonal_game) (new_game 3)) \<and>
   drop_ev \<lparr>dataTransfer = ''player-1'', target = Div 0\<rparr> (run (butlast diagonal_game) (new_game 3))
     = Inr (run diagonal_game (new_game 3)) \<and>
   data_x (squares (run (butlast diagonal_game) (new_game 3)) ! 0) = 0 \<and>
   data_y (squares (run (butlast diagonal_game) (new_game 3)) ! 0) = 0 \<and>
   js_abs_is (line_sum (run diagonal_game (new_game 3)) (Row 0)) 3 \<and>
   line_sum (run (butlast diagonal_game) (new_game 3)) MainDiagonal = Num 2 \<and>
   line_sum (run diagonal_game (new_game 3)) MainDiagonal = Num 2 \<and>
   line_sum (run diagonal_game (new_game 3)) AntiDiagonal
     = line_sum (run (butlast diagonal_game) (new_game 3)) AntiDiagonal"
proof -
  define e where "e = \<lparr>dataTransfer = ''player-1'', target = Div 0\<rparr>"
  define a where "a = run (butlast diagonal_game) (new_game 3)"
  define b where "b = run diagonal_game (new_game 3)"
  have rb: "b = step (Drop e) a"
    by (simp add: a_def b_def e_def diagonal_game_def run_def put_def)
  have l: "legal e a" unfolding e_def a_def by code_simp
  have c: "dataTransfer e \<in> set (controls a)" unfolding e_def a_def by code_simp
  have t: "target e = Div 0" by (simp add: e_def)
  have d: "drop_ev e a = Inr b"
    using drop_accept [OF l t c] by (simp add: rb)
  have g: "GRID_SIZE a = 3" unfolding a_def by code_simp
  have x: "data_x (squares a ! 0) = 0" and y: "data_y (squares a ! 0) = 0"
    unfolding a_def by code_simp+
  have r: "js_abs_is (line_sum b (Row 0)) 3" unfolding b_def by code_simp
  have m: "line_sum a MainDiagonal = Num 2" unfolding a_def by code_simp
  have "line_sum b MainDiagonal = line_sum a MainDiagonal \<and>
        line_sum b AntiDiagonal = line_sum a AntiDiagonal"
    using diagonal_updates_skipped [OF l t d g [symmetric] x [symmetric] y [symmetric]] r
    by simp
  then show ?thesis using l d x y r m by (simp add: a_def b_def e_def)
qed

end
